theory Spec2Isabelle
  imports Main "HOL-Library.Word"
begin

section \<open>Bytes, text and UTF-8 decoding with replacement\<close>

text \<open>
  \<^verbatim>\<open>deploy_vps.py\<close> is one linear script: it connects to a host, runs a build command
  while streaming its output, restarts a process-manager entry when the build exited
  with status 0, queries the status, closes the connection.

  Remote output is \<^verbatim>\<open>bytes\<close>; what the script prints is \<^verbatim>\<open>str\<close>, a sequence of
  Unicode code points. A byte is an 8-bit word, a code point a natural number.
\<close>

type_synonym byte = "8 word"
type_synonym str = "nat list"

text \<open>Python string literals of the script are ASCII apart from one dash.\<close>

definition ascii :: "string \<Rightarrow> str" where
  "ascii s = map of_char s"

text \<open>
  \<^verbatim>\<open>bytes.decode('utf-8', errors='replace')\<close>. The decoder accepts exactly the
  well-formed sequences (no overlong forms, no surrogates, nothing above U+10FFFF). At an
  error it emits one U+FFFD for the bytes of the ill-formed prefix it has consumed (the
  lead byte of a sequence and the continuation bytes that were still admissible) and
  resumes at the first byte that did not fit; a sequence cut off by the end of the data
  gives one U+FFFD for all that is left.
\<close>

definition REPLACEMENT :: nat where
  "REPLACEMENT = 0xFFFD"

definition is_continuation :: "byte \<Rightarrow> bool" where
  "is_continuation b = (0x80 \<le> b \<and> b < 0xC0)"

text \<open>The second byte of a three-byte sequence: \<^verbatim>\<open>E0\<close> needs \<^verbatim>\<open>A0..BF\<close> (else
  overlong), \<^verbatim>\<open>ED\<close> needs \<^verbatim>\<open>80..9F\<close> (else a surrogate).\<close>

definition second_of_3 :: "byte \<Rightarrow> byte \<Rightarrow> bool" where
  "second_of_3 b0 b1 =
     (is_continuation b1 \<and> (if b1 < 0xA0 then b0 \<noteq> 0xE0 else b0 \<noteq> 0xED))"

text \<open>The second byte of a four-byte sequence: \<^verbatim>\<open>F0\<close> needs \<^verbatim>\<open>90..BF\<close> (else
  overlong), \<^verbatim>\<open>F4\<close> needs \<^verbatim>\<open>80..8F\<close> (else above U+10FFFF).\<close>

definition second_of_4 :: "byte \<Rightarrow> byte \<Rightarrow> bool" where
  "second_of_4 b0 b1 =
     (is_continuation b1 \<and> (if b1 < 0x90 then b0 \<noteq> 0xF0 else b0 \<noteq> 0xF4))"

definition cp2 :: "byte \<Rightarrow> byte \<Rightarrow> nat" where
  "cp2 b0 b1 = (unat b0 - 0xC0) * 64 + (unat b1 - 0x80)"

definition cp3 :: "byte \<Rightarrow> byte \<Rightarrow> byte \<Rightarrow> nat" where
  "cp3 b0 b1 b2 = (unat b0 - 0xE0) * 4096 + (unat b1 - 0x80) * 64 + (unat b2 - 0x80)"

definition cp4 :: "byte \<Rightarrow> byte \<Rightarrow> byte \<Rightarrow> byte \<Rightarrow> nat" where
  "cp4 b0 b1 b2 b3 =
     (unat b0 - 0xF0) * 262144 + (unat b1 - 0x80) * 4096 + (unat b2 - 0x80) * 64
       + (unat b3 - 0x80)"

fun decode :: "byte list \<Rightarrow> str" where
  "decode [] = []"
| "decode (b0 # bs) =
     (if b0 < 0x80 then unat b0 # decode bs
      else if b0 < 0xC2 then REPLACEMENT # decode bs
      else if b0 < 0xE0 then
        (case bs of
           [] \<Rightarrow> [REPLACEMENT]
         | b1 # r1 \<Rightarrow>
             if is_continuation b1 then cp2 b0 b1 # decode r1
             else REPLACEMENT # decode bs)
      else if b0 < 0xF0 then
        (case bs of
           [] \<Rightarrow> [REPLACEMENT]
         | b1 # r1 \<Rightarrow>
             if \<not> second_of_3 b0 b1 then REPLACEMENT # decode bs
             else
               (case r1 of
                  [] \<Rightarrow> [REPLACEMENT]
                | b2 # r2 \<Rightarrow>
                    if is_continuation b2 then cp3 b0 b1 b2 # decode r2
                    else REPLACEMENT # decode r1))
      else if b0 < 0xF5 then
        (case bs of
           [] \<Rightarrow> [REPLACEMENT]
         | b1 # r1 \<Rightarrow>
             if \<not> second_of_4 b0 b1 then REPLACEMENT # decode bs
             else
               (case r1 of
                  [] \<Rightarrow> [REPLACEMENT]
                | b2 # r2 \<Rightarrow>
                    if \<not> is_continuation b2 then REPLACEMENT # decode r1
                    else
                      (case r2 of
                         [] \<Rightarrow> [REPLACEMENT]
                       | b3 # r3 \<Rightarrow>
                           if is_continuation b3 then cp4 b0 b1 b2 b3 # decode r3
                           else REPLACEMENT # decode r2)))
      else REPLACEMENT # decode bs)"


text \<open>\<^verbatim>\<open>str(n)\<close> of an integer, as an f-string formats it: decimal digits, a minus
  sign for a negative number.\<close>

fun digits :: "nat \<Rightarrow> str" where
  "digits n = (if n < 10 then [48 + n] else digits (n div 10) @ [48 + n mod 10])"

declare digits.simps [simp del]

definition str_int :: "int \<Rightarrow> str" where
  "str_int i = (if i < 0 then 45 # digits (nat (- i)) else digits (nat i))"

section \<open>The remote host and what a run of the script does\<close>

text \<open>
  The fatal error kinds. The script catches none of them.
\<close>

datatype error = ConnectionError | CommandTimeout | ConnectionLost

text \<open>
  The remote side is the input of a run. A channel is what \<^verbatim>\<open>exec_command\<close> gives
  back: \<open>stream ch i\<close> is the outcome of the \<open>i\<close>-th read on its output file (a chunk
  of bytes, the empty chunk at end of file, or an error raised by the read), and
  \<open>exit_status ch\<close> is what the channel reports as the command's exit status.
\<close>

record channel =
  stream :: "nat \<Rightarrow> error + byte list"
  exit_status :: int

record remote =
  connect_result :: "error option"
  exec_result :: "string \<Rightarrow> error + channel"

text \<open>
  What a run does, in order: the calls it makes (a call that returns data carries it) and
  what it writes to \<^verbatim>\<open>sys.stdout\<close>. \<open>Raise e\<close> follows the call that raised \<open>e\<close>.
\<close>

datatype event =
    Print str
  | Write str
  | Flush
  | Connect
  | Exec string
  | Read string nat "error + byte list"
  | ReadAll string "error + byte list"
  | RecvExit string int
  | Close
  | Raise error

text \<open>
  A step returns a value, raises, or is still running when the fuel of its read loop is
  used up (a stream need not ever close). It also yields the events it produced.
\<close>

datatype 'a result = Returned 'a | Raises error | Unfinished

type_synonym 'a run = "'a result \<times> event list"

text \<open>Sequencing of statements: the second runs only if the first returned.\<close>

definition next_do :: "'a run \<Rightarrow> ('a \<Rightarrow> 'b run) \<Rightarrow> 'b run" where
  "next_do m f =
     (case m of
        (Returned x, evs) \<Rightarrow> (case f x of (r, evs') \<Rightarrow> (r, evs @ evs'))
      | (Raises e, evs) \<Rightarrow> (Raises e, evs)
      | (Unfinished, evs) \<Rightarrow> (Unfinished, evs))"

definition print :: "str \<Rightarrow> unit run" where
  "print s = (Returned (), [Print s])"

definition connect :: "remote \<Rightarrow> unit run" where
  "connect env =
     (case connect_result env of
        None \<Rightarrow> (Returned (), [Connect])
      | Some e \<Rightarrow> (Raises e, [Connect, Raise e]))"

definition exec_command :: "remote \<Rightarrow> string \<Rightarrow> channel run" where
  "exec_command env c =
     (case exec_result env c of
        Inr ch \<Rightarrow> (Returned ch, [Exec c])
      | Inl e \<Rightarrow> (Raises e, [Exec c, Raise e]))"

definition recv_exit_status :: "string \<Rightarrow> channel \<Rightarrow> int run" where
  "recv_exit_status c ch = (Returned (exit_status ch), [RecvExit c (exit_status ch)])"

definition close :: "unit run" where
  "close = (Returned (), [Close])"

text \<open>
  Lines 18 to 23: \<^verbatim>\<open>while True: chunk = stdout.read(4096); if not chunk: break;
  sys.stdout.write(chunk.decode('utf-8', errors='replace')); sys.stdout.flush()\<close>.
  The fuel \<open>k\<close> bounds the number of reads; \<open>i\<close> is the index of the next read.
\<close>

fun read_loop :: "nat \<Rightarrow> string \<Rightarrow> (nat \<Rightarrow> error + byte list) \<Rightarrow> nat \<Rightarrow> unit run" where
  "read_loop 0 c s i = (Unfinished, [])"
| "read_loop (Suc k) c s i =
     (case s i of
        Inl e \<Rightarrow> (Raises e, [Read c 4096 (Inl e), Raise e])
      | Inr chunk \<Rightarrow>
          if chunk = [] then (Returned (), [Read c 4096 (Inr [])])
          else
            (case read_loop k c s (Suc i) of
               (r, evs) \<Rightarrow> (r, [Read c 4096 (Inr chunk), Write (decode chunk), Flush] @ evs)))"

text \<open>
  \<^verbatim>\<open>out.read()\<close> with no size (lines 31 and 38): the file object reads until end of
  file and returns everything at once; an error raised on the way loses what was read.
\<close>

fun read_all :: "nat \<Rightarrow> (nat \<Rightarrow> error + byte list) \<Rightarrow> nat \<Rightarrow> byte list result" where
  "read_all 0 s i = Unfinished"
| "read_all (Suc k) s i =
     (case s i of
        Inl e \<Rightarrow> Raises e
      | Inr chunk \<Rightarrow>
          if chunk = [] then Returned []
          else
            (case read_all k s (Suc i) of
               Returned bs \<Rightarrow> Returned (chunk @ bs)
             | Raises e \<Rightarrow> Raises e
             | Unfinished \<Rightarrow> Unfinished))"

definition read :: "nat \<Rightarrow> string \<Rightarrow> channel \<Rightarrow> byte list run" where
  "read k c ch =
     (case read_all k (stream ch) 0 of
        Returned bs \<Rightarrow> (Returned bs, [ReadAll c (Inr bs)])
      | Raises e \<Rightarrow> (Raises e, [ReadAll c (Inl e), Raise e])
      | Unfinished \<Rightarrow> (Unfinished, []))"

subsection \<open>The script\<close>

definition build_cmd :: string where
  "build_cmd = ''cd /var/www/gst && npm run build 2>&1''"

definition restart_cmd :: string where
  "restart_cmd = ''pm2 restart gst 2>&1''"

definition status_cmd :: string where
  "status_cmd = ''pm2 status 2>&1''"

definition build_exit_line :: "int \<Rightarrow> str" where
  "build_exit_line n = [10] @ ascii ''[BUILD EXIT CODE: '' @ str_int n @ ascii '']''"

definition pm2_exit_line :: "int \<Rightarrow> str" where
  "pm2_exit_line n = ascii ''[PM2 EXIT: '' @ str_int n @ ascii '']''"

definition build_failed_line :: str where
  "build_failed_line = ascii ''[BUILD FAILED '' @ [0x2014] @ ascii '' skipping restart]''"

text \<open>Lines 29 to 32, the branch taken when the build exited with status 0.\<close>

definition restart_step :: "nat \<Rightarrow> remote \<Rightarrow> unit run" where
  "restart_step k env =
     next_do (print ([10] @ ascii ''=== STEP 2: pm2 restart gst ==='')) (\<lambda>_.
     next_do (exec_command env restart_cmd) (\<lambda>out2.
     next_do (read k restart_cmd out2) (\<lambda>bs.
     next_do (print (decode bs)) (\<lambda>_.
     next_do (recv_exit_status restart_cmd out2) (\<lambda>n.
     print (pm2_exit_line n))))))"

text \<open>
  Lines 12 to 41. Reaching the end of the script is \<open>Returned ()\<close>. The host name,
  the credentials, the host-key policy of line 11 and the timeout values are constants
  that no statement below depends on: what they cause is in \<open>connect_result\<close> and in
  the errors of the streams. Each read loop of a run gets the fuel \<open>k\<close>.
\<close>

definition deploy :: "nat \<Rightarrow> remote \<Rightarrow> unit run" where
  "deploy k env =
     next_do (print (ascii ''Connecting to VPS...'')) (\<lambda>_.
     next_do (connect env) (\<lambda>_.
     next_do (print (ascii ''Connected.'' @ [10])) (\<lambda>_.
     next_do (print (ascii ''=== STEP 1: npm run build ==='')) (\<lambda>_.
     next_do (exec_command env build_cmd) (\<lambda>stdout.
     next_do (read_loop k build_cmd (stream stdout) 0) (\<lambda>_.
     next_do (recv_exit_status build_cmd stdout) (\<lambda>exit_code.
     next_do (print (build_exit_line exit_code)) (\<lambda>_.
     next_do (if exit_code = 0 then restart_step k env else print build_failed_line) (\<lambda>_.
     next_do (print ([10] @ ascii ''=== STEP 3: pm2 status ==='')) (\<lambda>_.
     next_do (exec_command env status_cmd) (\<lambda>out3.
     next_do (read k status_cmd out3) (\<lambda>bs.
     next_do (print (decode bs)) (\<lambda>_.
     next_do close (\<lambda>_.
     print (ascii ''Done.'')))))))))))))))"

text \<open>
  The exit code of the Python process: 0 at the end of the script, 1 when an exception
  reaches the top. A run that is still going has none.
\<close>

fun process_exit_code :: "unit result \<Rightarrow> int option" where
  "process_exit_code (Returned _) = Some 0"
| "process_exit_code (Raises _) = Some 1"
| "process_exit_code Unfinished = None"

text \<open>What the console shows: \<^verbatim>\<open>print\<close> ends its text with a newline.\<close>

fun console :: "event list \<Rightarrow> str" where
  "console [] = []"
| "console (Print s # evs) = s @ [10] @ console evs"
| "console (Write s # evs) = s @ console evs"
| "console (_ # evs) = console evs"

section \<open>Notions used to state and prove the properties\<close>

text \<open>The stream reaches end of file, with no error on the way, within \<open>k\<close> reads
  counted from read \<open>i\<close>.\<close>

fun closes_within :: "nat \<Rightarrow> (nat \<Rightarrow> error + byte list) \<Rightarrow> nat \<Rightarrow> bool" where
  "closes_within 0 s i = False"
| "closes_within (Suc k) s i =
     (case s i of Inl e \<Rightarrow> False | Inr chunk \<Rightarrow> chunk = [] \<or> closes_within k s (Suc i))"

text \<open>Reads \<open>i\<close> to \<open>i + n - 1\<close> of the stream each deliver a non-empty chunk.\<close>

fun delivers :: "(nat \<Rightarrow> error + byte list) \<Rightarrow> nat \<Rightarrow> nat \<Rightarrow> bool" where
  "delivers s i 0 = True"
| "delivers s i (Suc n) =
     (case s i of Inl e \<Rightarrow> False | Inr chunk \<Rightarrow> chunk \<noteq> [] \<and> delivers s (Suc i) n)"

definition chunk_at :: "(nat \<Rightarrow> error + byte list) \<Rightarrow> nat \<Rightarrow> byte list" where
  "chunk_at s j = (case s j of Inl e \<Rightarrow> [] | Inr chunk \<Rightarrow> chunk)"

text \<open>Reading a decimal numeral back.\<close>

definition parse_digits :: "str \<Rightarrow> nat" where
  "parse_digits ds = foldl (\<lambda>a d. 10 * a + (d - 48)) 0 ds"

text \<open>The commands passed to \<^verbatim>\<open>exec_command\<close>, in order.\<close>

fun commands :: "event list \<Rightarrow> string list" where
  "commands [] = []"
| "commands (Exec c # evs) = c # commands evs"
| "commands (_ # evs) = commands evs"

text \<open>The texts handed to \<^verbatim>\<open>sys.stdout.write\<close>, concatenated.\<close>

fun written :: "event list \<Rightarrow> str" where
  "written [] = []"
| "written (Write s # evs) = s @ written evs"
| "written (_ # evs) = written evs"

text \<open>
  The script in three parts, for the proofs: lines 12 to 26 (connect, build, report the
  exit code), lines 29 to 32 (\<open>restart_step\<close> above) and lines 36 to 41 (status, close).
  Lemma \<open>deploy_steps\<close> shows that \<open>deploy\<close> is their sequence.
\<close>

definition after :: "event list \<Rightarrow> 'a run \<Rightarrow> 'a run" where
  "after evs m = (fst m, evs @ snd m)"

definition build_step :: "nat \<Rightarrow> remote \<Rightarrow> int run" where
  "build_step k env =
     next_do (print (ascii ''Connecting to VPS...'')) (\<lambda>_.
     next_do (connect env) (\<lambda>_.
     next_do (print (ascii ''Connected.'' @ [10])) (\<lambda>_.
     next_do (print (ascii ''=== STEP 1: npm run build ==='')) (\<lambda>_.
     next_do (exec_command env build_cmd) (\<lambda>stdout.
     next_do (read_loop k build_cmd (stream stdout) 0) (\<lambda>_.
     next_do (recv_exit_status build_cmd stdout) (\<lambda>exit_code.
     next_do (print (build_exit_line exit_code)) (\<lambda>_.
     (Returned exit_code, [])))))))))"

definition status_step :: "nat \<Rightarrow> remote \<Rightarrow> unit run" where
  "status_step k env =
     next_do (print ([10] @ ascii ''=== STEP 3: pm2 status ==='')) (\<lambda>_.
     next_do (exec_command env status_cmd) (\<lambda>out3.
     next_do (read k status_cmd out3) (\<lambda>bs.
     next_do (print (decode bs)) (\<lambda>_.
     next_do close (\<lambda>_.
     print (ascii ''Done.''))))))"

text \<open>What the script has done when \<^verbatim>\<open>exec_command\<close> for the build returns.\<close>

definition prologue :: "event list" where
  "prologue =
     [Print (ascii ''Connecting to VPS...''), Connect, Print (ascii ''Connected.'' @ [10]),
      Print (ascii ''=== STEP 1: npm run build ===''), Exec build_cmd]"

text \<open>The events of reads \<open>i\<close> to \<open>i + n - 1\<close> of the read loop: each chunk is read,
  then written decoded, then flushed.\<close>

definition chunk_events :: "string \<Rightarrow> (nat \<Rightarrow> error + byte list) \<Rightarrow> nat \<Rightarrow> nat \<Rightarrow> event list" where
  "chunk_events c s i n =
     concat (map (\<lambda>j. [Read c 4096 (s j), Write (decode (chunk_at s j)), Flush]) [i..<i + n])"

text \<open>A raised error is the last thing a step does, and what it ends with.\<close>

definition ends_at_raise :: "'a run \<Rightarrow> bool" where
  "ends_at_raise m =
     (case fst m of
        Raises e \<Rightarrow> (\<exists>A. snd m = A @ [Raise e] \<and> (\<forall>e'. Raise e' \<notin> set A))
      | Returned x \<Rightarrow> (\<forall>e'. Raise e' \<notin> set (snd m))
      | Unfinished \<Rightarrow> (\<forall>e'. Raise e' \<notin> set (snd m)))"

subsection \<open>Concrete remote hosts\<close>

text \<open>A command whose output stream delivers the chunks \<open>cs\<close> and then closes.\<close>

definition says :: "byte list list \<Rightarrow> int \<Rightarrow> channel" where
  "says cs n =
     \<lparr>stream = (\<lambda>i. if i < length cs then Inr (cs ! i) else Inr []), exit_status = n\<rparr>"

text \<open>A command whose stream delivers the chunks \<open>cs\<close> and then fails with \<open>e\<close>.\<close>

definition breaks :: "byte list list \<Rightarrow> error \<Rightarrow> channel" where
  "breaks cs e =
     \<lparr>stream = (\<lambda>i. if i < length cs then Inr (cs ! i) else Inl e), exit_status = - 1\<rparr>"

text \<open>A host that accepts the connection and runs the three commands as given.\<close>

definition host :: "channel \<Rightarrow> channel \<Rightarrow> channel \<Rightarrow> remote" where
  "host b r s =
     \<lparr>connect_result = None,
      exec_result = (\<lambda>c. if c = build_cmd then Inr b else if c = restart_cmd then Inr r else Inr s)\<rparr>"

definition unreachable :: remote where
  "unreachable = \<lparr>connect_result = Some ConnectionError, exec_result = (\<lambda>c. Inl ConnectionLost)\<rparr>"

section \<open>Basic facts about the steps\<close>

lemma after_simps [simp]:
  "after evs (r, evs') = (r, evs @ evs')"
  "fst (after evs m) = fst m"
  "snd (after evs m) = evs @ snd m"
  by (simp_all add: after_def)

lemma next_do_after:
  "next_do m f =
     (case fst m of
        Returned x \<Rightarrow> after (snd m) (f x)
      | Raises e \<Rightarrow> (Raises e, snd m)
      | Unfinished \<Rightarrow> (Unfinished, snd m))"
  by (simp add: next_do_def after_def split: prod.splits result.splits)

lemma next_do_assoc: "next_do (next_do m f) g = next_do m (\<lambda>x. next_do (f x) g)"
  by (cases m; cases "fst m") (auto simp: next_do_def split: prod.splits result.splits)

lemma next_do_return: "next_do (Returned x, []) f = f x"
  by (simp add: next_do_def)

lemma deploy_steps:
  "deploy k env =
     next_do (build_step k env) (\<lambda>exit_code.
     next_do (if exit_code = 0 then restart_step k env else print build_failed_line) (\<lambda>_.
     status_step k env))"
  unfolding deploy_def build_step_def status_step_def next_do_assoc next_do_return ..

lemmas run_defs = next_do_after print_def connect_def exec_command_def recv_exit_status_def
  close_def read_def

lemma cmds_distinct [simp]:
  "build_cmd \<noteq> restart_cmd" "build_cmd \<noteq> status_cmd" "restart_cmd \<noteq> status_cmd"
  "restart_cmd \<noteq> build_cmd" "status_cmd \<noteq> build_cmd" "status_cmd \<noteq> restart_cmd"
  by (simp_all add: build_cmd_def restart_cmd_def status_cmd_def)

subsection \<open>The read loops\<close>

lemma read_loop_Suc:
  "read_loop (Suc k) c s i =
     (case s i of
        Inl e \<Rightarrow> (Raises e, [Read c 4096 (Inl e), Raise e])
      | Inr chunk \<Rightarrow>
          if chunk = [] then (Returned (), [Read c 4096 (Inr [])])
          else (fst (read_loop k c s (Suc i)),
                [Read c 4096 (Inr chunk), Write (decode chunk), Flush]
                  @ snd (read_loop k c s (Suc i))))"
  by (simp split: prod.splits sum.splits)

declare read_loop.simps(2) [simp del]

lemma read_loop_events:
  "e \<in> set (snd (read_loop k c s i)) \<Longrightarrow>
     (\<exists>r. e = Read c 4096 r) \<or> (\<exists>t. e = Write t) \<or> e = Flush \<or> (\<exists>x. e = Raise x)"
  by (induction k arbitrary: i) (auto simp: read_loop_Suc split: sum.splits if_splits)

lemma read_loop_others [simp]:
  "Close \<notin> set (snd (read_loop k c s i))"
  "Connect \<notin> set (snd (read_loop k c s i))"
  "Exec c' \<notin> set (snd (read_loop k c s i))"
  "Print t \<notin> set (snd (read_loop k c s i))"
  "ReadAll c' r \<notin> set (snd (read_loop k c s i))"
  "RecvExit c' n \<notin> set (snd (read_loop k c s i))"
  using read_loop_events [of _ k c s i] by blast+

lemma read_loop_closes:
  "closes_within k s i \<Longrightarrow> fst (read_loop k c s i) = Returned ()"
  by (induction k arbitrary: i) (auto simp: read_loop_Suc split: sum.splits if_splits)

text \<open>More fuel does not change a loop that ended.\<close>

lemma closes_within_mono:
  "closes_within k s i \<Longrightarrow> k \<le> k' \<Longrightarrow> closes_within k' s i"
proof (induction k arbitrary: k' i)
  case 0
  then show ?case by simp
next
  case (Suc k)
  from Suc.prems(2) obtain j where j: "k' = Suc j" "k \<le> j" by (cases k') simp_all
  with Suc.prems(1) Suc.IH [of "Suc i" j] show ?case
    by (auto split: sum.splits)
qed

lemma read_all_closes:
  "closes_within k s i \<Longrightarrow> \<exists>bs. read_all k s i = Returned bs"
proof (induction k arbitrary: i)
  case 0
  then show ?case by simp
next
  case (Suc k)
  show ?case
  proof (cases "s i")
    case (Inl e)
    with Suc.prems show ?thesis by simp
  next
    case (Inr chunk)
    show ?thesis
    proof (cases "chunk = []")
      case True
      with Inr show ?thesis by simp
    next
      case False
      with Inr Suc.prems have "closes_within k s (Suc i)" by simp
      then obtain bs where "read_all k s (Suc i) = Returned bs" using Suc.IH by blast
      with Inr False show ?thesis by simp
    qed
  qed
qed

subsection \<open>The three parts of the script, case by case\<close>

lemma build_step_cases:
  "build_step k env =
     (case connect_result env of
        Some e \<Rightarrow> (Raises e, [Print (ascii ''Connecting to VPS...''), Connect, Raise e])
      | None \<Rightarrow>
          (case exec_result env build_cmd of
             Inl e \<Rightarrow> (Raises e, prologue @ [Raise e])
           | Inr b \<Rightarrow>
               (case fst (read_loop k build_cmd (stream b) 0) of
                  Returned _ \<Rightarrow>
                    (Returned (exit_status b),
                     prologue @ snd (read_loop k build_cmd (stream b) 0)
                       @ [RecvExit build_cmd (exit_status b), Print (build_exit_line (exit_status b))])
                | Raises e \<Rightarrow> (Raises e, prologue @ snd (read_loop k build_cmd (stream b) 0))
                | Unfinished \<Rightarrow> (Unfinished, prologue @ snd (read_loop k build_cmd (stream b) 0)))))"
  by (simp add: build_step_def prologue_def run_defs split: option.splits sum.splits result.splits)

lemma restart_step_cases:
  "restart_step k env =
     (case exec_result env restart_cmd of
        Inl e \<Rightarrow>
          (Raises e,
           [Print ([10] @ ascii ''=== STEP 2: pm2 restart gst ===''), Exec restart_cmd, Raise e])
      | Inr r \<Rightarrow>
          (case read_all k (stream r) 0 of
             Returned bs \<Rightarrow>
               (Returned (),
                [Print ([10] @ ascii ''=== STEP 2: pm2 restart gst ===''), Exec restart_cmd,
                 ReadAll restart_cmd (Inr bs), Print (decode bs),
                 RecvExit restart_cmd (exit_status r), Print (pm2_exit_line (exit_status r))])
           | Raises e \<Rightarrow>
               (Raises e,
                [Print ([10] @ ascii ''=== STEP 2: pm2 restart gst ===''), Exec restart_cmd,
                 ReadAll restart_cmd (Inl e), Raise e])
           | Unfinished \<Rightarrow>
               (Unfinished,
                [Print ([10] @ ascii ''=== STEP 2: pm2 restart gst ===''), Exec restart_cmd])))"
  by (simp add: restart_step_def run_defs split: option.splits sum.splits result.splits)

lemma status_step_cases:
  "status_step k env =
     (case exec_result env status_cmd of
        Inl e \<Rightarrow>
          (Raises e,
           [Print ([10] @ ascii ''=== STEP 3: pm2 status ===''), Exec status_cmd, Raise e])
      | Inr s \<Rightarrow>
          (case read_all k (stream s) 0 of
             Returned bs \<Rightarrow>
               (Returned (),
                [Print ([10] @ ascii ''=== STEP 3: pm2 status ===''), Exec status_cmd,
                 ReadAll status_cmd (Inr bs), Print (decode bs), Close,
                 Print (ascii ''Done.'')])
           | Raises e \<Rightarrow>
               (Raises e,
                [Print ([10] @ ascii ''=== STEP 3: pm2 status ===''), Exec status_cmd,
                 ReadAll status_cmd (Inl e), Raise e])
           | Unfinished \<Rightarrow>
               (Unfinished,
                [Print ([10] @ ascii ''=== STEP 3: pm2 status ===''), Exec status_cmd])))"
  by (simp add: status_step_def run_defs split: option.splits sum.splits result.splits)

lemmas step_cases = build_step_cases restart_step_cases status_step_cases

lemma build_step_returns:
  assumes "connect_result env = None" and "exec_result env build_cmd = Inr b"
    and "closes_within k (stream b) 0"
  shows "build_step k env =
           (Returned (exit_status b),
            prologue @ snd (read_loop k build_cmd (stream b) 0)
              @ [RecvExit build_cmd (exit_status b), Print (build_exit_line (exit_status b))])"
  using assms read_loop_closes [OF assms(3), of build_cmd] by (simp add: build_step_cases)

lemma build_step_returned:
  assumes "fst (build_step k env) = Returned n"
  shows "\<exists>b. connect_result env = None \<and> exec_result env build_cmd = Inr b \<and> exit_status b = n
           \<and> fst (read_loop k build_cmd (stream b) 0) = Returned ()
           \<and> snd (build_step k env) =
               prologue @ snd (read_loop k build_cmd (stream b) 0)
                 @ [RecvExit build_cmd n, Print (build_exit_line n)]"
  using assms by (auto simp: build_step_cases split: option.splits sum.splits result.splits)

lemma restart_step_returns:
  assumes "exec_result env restart_cmd = Inr r" and "closes_within k (stream r) 0"
  shows "\<exists>bs. restart_step k env =
           (Returned (),
            [Print ([10] @ ascii ''=== STEP 2: pm2 restart gst ===''), Exec restart_cmd,
             ReadAll restart_cmd (Inr bs), Print (decode bs),
             RecvExit restart_cmd (exit_status r), Print (pm2_exit_line (exit_status r))])"
  using assms(1) read_all_closes [OF assms(2)] by (auto simp: restart_step_cases)

lemma status_step_returns:
  assumes "exec_result env status_cmd = Inr s" and "closes_within k (stream s) 0"
  shows "\<exists>bs. status_step k env =
           (Returned (),
            [Print ([10] @ ascii ''=== STEP 3: pm2 status ===''), Exec status_cmd,
             ReadAll status_cmd (Inr bs), Print (decode bs), Close, Print (ascii ''Done.'')])"
  using assms(1) read_all_closes [OF assms(2)] by (auto simp: status_step_cases)

subsection \<open>Counting events\<close>

lemma count_Exec_restart [simp]:
  "count_list (snd (build_step k env)) (Exec restart_cmd) = 0"
  "count_list (snd (restart_step k env)) (Exec restart_cmd) = 1"
  "count_list (snd (status_step k env)) (Exec restart_cmd) = 0"
  by (simp_all add: step_cases prologue_def split: option.splits sum.splits result.splits)

lemma count_Close [simp]:
  "count_list (snd (build_step k env)) Close = 0"
  "count_list (snd (restart_step k env)) Close = 0"
  "count_list (snd (status_step k env)) Close =
     (if fst (status_step k env) = Returned () then 1 else 0)"
  by (simp_all add: step_cases prologue_def split: option.splits sum.splits result.splits)

lemma commands_append [simp]: "commands (xs @ ys) = commands xs @ commands ys"
  by (induction xs rule: commands.induct) simp_all

lemma commands_no_Exec: "(\<And>c. Exec c \<notin> set evs) \<Longrightarrow> commands evs = []"
  by (induction evs rule: commands.induct) auto

lemma commands_read_loop [simp]: "commands (snd (read_loop k c s i)) = []"
  by (rule commands_no_Exec) simp

lemma count_Exec_commands: "count_list evs (Exec c) = count_list (commands evs) c"
  by (induction evs rule: commands.induct) simp_all

lemma commands_steps:
  "fst (build_step k env) = Returned n \<Longrightarrow> commands (snd (build_step k env)) = [build_cmd]"
  "commands (snd (restart_step k env)) = [restart_cmd]"
  "commands (snd (status_step k env)) = [status_cmd]"
  by (simp_all add: step_cases prologue_def split: option.splits sum.splits result.splits)

subsection \<open>Formatting an exit status loses nothing\<close>

lemma parse_digits_digits: "parse_digits (digits n) = n"
proof (induction n rule: digits.induct)
  case (1 n)
  show ?case
  proof (cases "n < 10")
    case True
    then show ?thesis by (simp add: digits.simps [of n] parse_digits_def)
  next
    case False
    with 1 have "parse_digits (digits (n div 10)) = n div 10" by simp
    with False show ?thesis
      by (simp add: digits.simps [of n] parse_digits_def)
  qed
qed

lemma digits_range: "d \<in> set (digits n) \<Longrightarrow> 48 \<le> d"
proof (induction n rule: digits.induct)
  case (1 n)
  then show ?case
    by (cases "n < 10") (auto simp: digits.simps [of n])
qed

lemma digits_inj: "digits m = digits n \<Longrightarrow> m = n"
  using parse_digits_digits by metis

lemma str_int_inj: "str_int i = str_int j \<Longrightarrow> i = j"
proof -
  assume eq: "str_int i = str_int j"
  have no_minus: "45 # ds \<noteq> digits n" for n ds
  proof
    assume "45 # ds = digits n"
    then have "45 \<in> set (digits n)" by (metis list.set_intros(1))
    then have "(48::nat) \<le> 45" by (rule digits_range)
    then show False by simp
  qed
  show "i = j"
  proof (cases "i < 0"; cases "j < 0")
    assume "i < 0" "j < 0"
    with eq have "digits (nat (- i)) = digits (nat (- j))" by (simp add: str_int_def)
    then have "nat (- i) = nat (- j)" by (rule digits_inj)
    with \<open>i < 0\<close> \<open>j < 0\<close> show ?thesis by simp
  next
    assume "i < 0" "\<not> j < 0"
    with eq no_minus show ?thesis by (simp add: str_int_def)
  next
    assume "\<not> i < 0" "j < 0"
    with eq no_minus [of "digits (nat (- j))" "nat i"] show ?thesis by (simp add: str_int_def)
  next
    assume "\<not> i < 0" "\<not> j < 0"
    with eq have "digits (nat i) = digits (nat j)" by (simp add: str_int_def)
    then have "nat i = nat j" by (rule digits_inj)
    with \<open>\<not> i < 0\<close> \<open>\<not> j < 0\<close> show ?thesis by simp
  qed
qed

lemma build_exit_line_inj: "build_exit_line m = build_exit_line n \<Longrightarrow> m = n"
  by (simp add: build_exit_line_def str_int_inj)

lemma pm2_exit_line_inj: "pm2_exit_line m = pm2_exit_line n \<Longrightarrow> m = n"
  by (simp add: pm2_exit_line_def str_int_inj)

subsection \<open>Where exit statuses are retrieved\<close>

lemma RecvExit_steps:
  "RecvExit c n \<in> set (snd (build_step k env)) \<Longrightarrow> c = build_cmd \<and> fst (build_step k env) = Returned n"
  "RecvExit c n \<in> set (snd (restart_step k env)) \<Longrightarrow>
     c = restart_cmd \<and> (\<exists>r. exec_result env restart_cmd = Inr r \<and> exit_status r = n)"
  "RecvExit c n \<notin> set (snd (status_step k env))"
  by (auto simp: step_cases prologue_def split: option.splits sum.splits result.splits)

subsection \<open>Where the connection is closed\<close>

lemma unique_split:
  assumes "x \<notin> set A" and "x \<notin> set B" and "A @ x # B = pre @ x # post"
  shows "pre = A \<and> post = B"
  using append_Cons_eq_iff [OF assms(1,2), of pre post] assms(3) by blast

lemma status_step_returned:
  "fst (status_step k env) = Returned () \<Longrightarrow>
     \<exists>bs. snd (status_step k env) =
       [Print ([10] @ ascii ''=== STEP 3: pm2 status ===''), Exec status_cmd,
        ReadAll status_cmd (Inr bs), Print (decode bs), Close, Print (ascii ''Done.'')]"
  by (auto simp: status_step_cases split: sum.splits result.splits)

lemma Close_not_in_steps:
  "Close \<notin> set (snd (build_step k env))"
  "Close \<notin> set (snd (restart_step k env))"
  "fst (status_step k env) \<noteq> Returned () \<Longrightarrow> Close \<notin> set (snd (status_step k env))"
  by (simp_all add: step_cases prologue_def split: option.splits sum.splits result.splits)

lemma count_Close_deploy:
  "count_list (snd (deploy k env)) Close = (if fst (deploy k env) = Returned () then 1 else 0)"
  by (simp add: deploy_steps next_do_after print_def split: result.splits)

lemma deploy_returned_Close:
  assumes "fst (deploy k env) = Returned ()"
  shows "\<exists>A. snd (deploy k env) = A @ Close # [Print (ascii ''Done.'')] \<and> Close \<notin> set A"
proof -
  from assms obtain n where n: "fst (build_step k env) = Returned n"
    by (auto simp: deploy_steps next_do_after split: result.splits)
  let ?mid = "if n = 0 then restart_step k env else print build_failed_line"
  from assms n have mid: "fst ?mid = Returned ()"
    by (auto simp: deploy_steps next_do_after split: result.splits)
  from assms n have st: "fst (status_step k env) = Returned ()"
    by (auto simp: deploy_steps next_do_after split: result.splits if_splits)
  from status_step_returned [OF st] obtain bs where
    bs: "snd (status_step k env) =
       [Print ([10] @ ascii ''=== STEP 3: pm2 status ===''), Exec status_cmd,
        ReadAll status_cmd (Inr bs), Print (decode bs), Close, Print (ascii ''Done.'')]"
    by blast
  let ?A = "snd (build_step k env) @ snd ?mid
      @ [Print ([10] @ ascii ''=== STEP 3: pm2 status ===''), Exec status_cmd,
         ReadAll status_cmd (Inr bs), Print (decode bs)]"
  from n mid bs have "snd (deploy k env) = ?A @ Close # [Print (ascii ''Done.'')]"
    by (simp add: deploy_steps next_do_after split: if_splits)
  moreover have "Close \<notin> set ?A"
    by (simp add: Close_not_in_steps print_def)
  ultimately show ?thesis by blast
qed

subsection \<open>Where errors are raised\<close>

lemma ends_at_raise_next_do:
  assumes "ends_at_raise m" and "\<And>x. ends_at_raise (f x)"
  shows "ends_at_raise (next_do m f)"
proof (cases "fst m")
  case (Returned x)
  with assms(1) have m: "\<forall>e'. Raise e' \<notin> set (snd m)" by (simp add: ends_at_raise_def)
  show ?thesis
  proof (cases "fst (f x)")
    case (Raises e)
    with assms(2) [of x] obtain A where "snd (f x) = A @ [Raise e]" "\<forall>e'. Raise e' \<notin> set A"
      by (auto simp: ends_at_raise_def)
    with m have "snd m @ snd (f x) = (snd m @ A) @ [Raise e] \<and> (\<forall>e'. Raise e' \<notin> set (snd m @ A))"
      by simp
    with Returned Raises show ?thesis
      unfolding ends_at_raise_def next_do_after by (simp del: append_assoc)
  next
    case (Returned y)
    with assms(2) [of x] m \<open>fst m = Returned x\<close> show ?thesis
      by (simp add: ends_at_raise_def next_do_after)
  next
    case Unfinished
    with assms(2) [of x] m \<open>fst m = Returned x\<close> show ?thesis
      by (simp add: ends_at_raise_def next_do_after)
  qed
next
  case (Raises e)
  with assms(1) show ?thesis by (simp add: ends_at_raise_def next_do_after)
next
  case Unfinished
  with assms(1) show ?thesis by (simp add: ends_at_raise_def next_do_after)
qed

lemma ends_at_raise_read_loop: "ends_at_raise (read_loop k c s i)"
proof (induction k arbitrary: i)
  case 0
  show ?case by (simp add: ends_at_raise_def)
next
  case (Suc k)
  show ?case
  proof (cases "s i")
    case (Inl e)
    have "[Read c 4096 (Inl e), Raise e] = [Read c 4096 (Inl e)] @ [Raise e]
        \<and> (\<forall>e'. Raise e' \<notin> set [Read c 4096 (Inl e)])" by simp
    with Inl show ?thesis unfolding ends_at_raise_def read_loop_Suc by (simp del: append.simps)
  next
    case (Inr chunk)
    show ?thesis
    proof (cases "chunk = []")
      case True
      with Inr show ?thesis by (simp add: ends_at_raise_def read_loop_Suc)
    next
      case False
      have "ends_at_raise
          (next_do (Returned (), [Read c 4096 (Inr chunk), Write (decode chunk), Flush])
             (\<lambda>_. read_loop k c s (Suc i)))"
        by (rule ends_at_raise_next_do) (simp_all add: ends_at_raise_def Suc.IH [unfolded ends_at_raise_def])
      with Inr False show ?thesis by (simp add: read_loop_Suc next_do_after after_def)
    qed
  qed
qed

lemma ends_at_raise_Raises:
  "(\<forall>e'. Raise e' \<notin> set A) \<Longrightarrow> ends_at_raise (Raises e, A @ [Raise e])"
  unfolding ends_at_raise_def by (simp del: append_assoc)

lemma ends_at_raise_print [simp]: "ends_at_raise (print t)"
  by (simp add: ends_at_raise_def print_def)

lemma ends_at_raise_recv [simp]: "ends_at_raise (recv_exit_status c ch)"
  by (simp add: ends_at_raise_def recv_exit_status_def)

lemma ends_at_raise_close [simp]: "ends_at_raise close"
  by (simp add: ends_at_raise_def close_def)

lemma ends_at_raise_connect [simp]: "ends_at_raise (connect env)"
proof (cases "connect_result env")
  case None
  then show ?thesis by (simp add: ends_at_raise_def connect_def)
next
  case (Some e)
  with ends_at_raise_Raises [of "[Connect]" e] show ?thesis by (simp add: connect_def)
qed

lemma ends_at_raise_exec [simp]: "ends_at_raise (exec_command env c)"
proof (cases "exec_result env c")
  case (Inr ch)
  then show ?thesis by (simp add: ends_at_raise_def exec_command_def)
next
  case (Inl e)
  with ends_at_raise_Raises [of "[Exec c]" e] show ?thesis by (simp add: exec_command_def)
qed

lemma ends_at_raise_read [simp]: "ends_at_raise (read k c ch)"
proof (cases "read_all k (stream ch) 0")
  case (Raises e)
  with ends_at_raise_Raises [of "[ReadAll c (Inl e)]" e] show ?thesis by (simp add: read_def)
next
  case (Returned bs)
  then show ?thesis by (simp add: ends_at_raise_def read_def)
next
  case Unfinished
  then show ?thesis by (simp add: ends_at_raise_def read_def)
qed

lemma ends_at_raise_restart: "ends_at_raise (restart_step k env)"
  unfolding restart_step_def by (intro ends_at_raise_next_do) simp_all

lemma ends_at_raise_deploy: "ends_at_raise (deploy k env)"
  unfolding deploy_def
  by (intro ends_at_raise_next_do) (simp_all add: ends_at_raise_read_loop ends_at_raise_restart)

lemma console_append [simp]: "console (xs @ ys) = console xs @ console ys"
  by (induction xs rule: console.induct) simp_all

subsection \<open>Where streams are read\<close>

lemma read_loop_returned_eof:
  "fst (read_loop k c s i) = Returned () \<Longrightarrow> Read c 4096 (Inr []) \<in> set (snd (read_loop k c s i))"
  by (induction k arbitrary: i) (auto simp: read_loop_Suc split: sum.splits if_splits)

lemma restart_step_RecvExit:
  "RecvExit c n \<in> set (snd (restart_step k env)) \<Longrightarrow>
     c = restart_cmd \<and> fst (restart_step k env) = Returned ()
     \<and> (\<exists>bs. snd (restart_step k env) =
           [Print ([10] @ ascii ''=== STEP 2: pm2 restart gst ===''), Exec restart_cmd,
            ReadAll restart_cmd (Inr bs), Print (decode bs)]
           @ RecvExit restart_cmd n # [Print (pm2_exit_line n)])"
  by (auto simp: restart_step_cases split: sum.splits result.splits)

lemma reads_in_steps:
  "Read c m r \<in> set (snd (build_step k env)) \<Longrightarrow> c = build_cmd"
  "ReadAll c r \<notin> set (snd (build_step k env))"
  "Read c m r \<notin> set (snd (restart_step k env))"
  "ReadAll c r \<in> set (snd (restart_step k env)) \<Longrightarrow> c = restart_cmd"
  "Read c m r \<notin> set (snd (status_step k env))"
  "ReadAll c r \<in> set (snd (status_step k env)) \<Longrightarrow> c = status_cmd"
  using read_loop_events [of "Read c m r" k build_cmd]
  by (auto simp: step_cases prologue_def split: option.splits sum.splits result.splits)

subsection \<open>What the read loop writes\<close>

lemma read_loop_delivers:
  "delivers s i n \<Longrightarrow> n \<le> k \<Longrightarrow>
     snd (read_loop k c s i) = chunk_events c s i n @ snd (read_loop (k - n) c s (i + n))"
proof (induction n arbitrary: i k)
  case 0
  then show ?case by (simp add: chunk_events_def)
next
  case (Suc n)
  from Suc.prems(2) obtain k' where k: "k = Suc k'" by (cases k) simp_all
  from Suc.prems(1) obtain chunk where ch: "s i = Inr chunk" "chunk \<noteq> []" "delivers s (Suc i) n"
    by (auto split: sum.splits)
  from Suc.prems(2) k have "n \<le> k'" by simp
  from Suc.IH [OF ch(3) this]
  have "snd (read_loop k' c s (Suc i)) =
      chunk_events c s (Suc i) n @ snd (read_loop (k' - n) c s (Suc i + n))" .
  moreover have "chunk_events c s i (Suc n) =
      [Read c 4096 (s i), Write (decode (chunk_at s i)), Flush] @ chunk_events c s (Suc i) n"
  proof -
    have "[i..<i + Suc n] = i # [Suc i..<Suc i + n]" by (simp add: upt_conv_Cons)
    then show ?thesis unfolding chunk_events_def by simp
  qed
  ultimately show ?case using ch k by (simp add: read_loop_Suc chunk_at_def)
qed

lemma written_append [simp]: "written (xs @ ys) = written xs @ written ys"
  by (induction xs rule: written.induct) simp_all

lemma console_concat: "console (concat xss) = concat (map console xss)"
  by (induction xss) simp_all

lemma console_chunk_events:
  "console (chunk_events c s i n) = concat (map (\<lambda>j. decode (chunk_at s j)) [i..<i + n])"
  by (simp add: chunk_events_def console_concat comp_def)

subsection \<open>Decoding ASCII\<close>

lemma decode_ascii_append:
  "(\<And>b. b \<in> set xs \<Longrightarrow> b < 0x80) \<Longrightarrow> decode (xs @ ys) = map unat xs @ decode ys"
  by (induction xs) simp_all

lemma decode_replicate_a [simp]:
  "decode (replicate n 0x61 @ ys) = replicate n 97 @ decode ys"
  using decode_ascii_append [of "replicate n 0x61" ys] by simp

subsection \<open>How a read loop ends\<close>

lemma chunk_events_Suc:
  "chunk_events c s i (Suc n) =
     [Read c 4096 (s i), Write (decode (chunk_at s i)), Flush] @ chunk_events c s (Suc i) n"
proof -
  have "[i..<i + Suc n] = i # [Suc i..<Suc i + n]" by (simp add: upt_conv_Cons)
  then show ?thesis unfolding chunk_events_def by simp
qed

lemma read_loop_fst_delivers:
  "delivers s i n \<Longrightarrow> n \<le> k \<Longrightarrow>
     fst (read_loop k c s i) = fst (read_loop (k - n) c s (i + n))"
proof (induction n arbitrary: i k)
  case 0
  then show ?case by simp
next
  case (Suc n)
  from Suc.prems(2) obtain k' where k: "k = Suc k'" by (cases k) simp_all
  from Suc.prems(1) obtain chunk where ch: "s i = Inr chunk" "chunk \<noteq> []" "delivers s (Suc i) n"
    by (auto split: sum.splits)
  from Suc.prems(2) k have "n \<le> k'" by simp
  from Suc.IH [OF ch(3) this] ch k show ?case by (simp add: read_loop_Suc)
qed

lemma read_loop_breaks:
  assumes "delivers s i n" and "s (i + n) = Inl e" and "n < k"
  shows "read_loop k c s i =
           (Raises e, chunk_events c s i n @ [Read c 4096 (Inl e), Raise e])"
proof -
  from assms(3) obtain j where j: "k - n = Suc j" by (cases "k - n") simp_all
  from assms(3) have le: "n \<le> k" by simp
  have "read_loop (k - n) c s (i + n) = (Raises e, [Read c 4096 (Inl e), Raise e])"
    using assms(2) j by (simp add: read_loop_Suc)
  with read_loop_fst_delivers [OF assms(1) le, of c] read_loop_delivers [OF assms(1) le, of c]
  show ?thesis by (simp add: prod_eq_iff)
qed

lemma read_loop_returned:
  "fst (read_loop k c s i) = Returned () \<Longrightarrow>
     \<exists>n<k. delivers s i n \<and> s (i + n) = Inr []
       \<and> snd (read_loop k c s i) = chunk_events c s i n @ [Read c 4096 (Inr [])]"
proof (induction k arbitrary: i)
  case 0
  then show ?case by simp
next
  case (Suc k)
  show ?case
  proof (cases "s i")
    case (Inl e)
    with Suc.prems show ?thesis by (simp add: read_loop_Suc)
  next
    case (Inr chunk)
    show ?thesis
    proof (cases "chunk = []")
      case True
      with Inr have "delivers s i 0 \<and> s (i + 0) = Inr []
          \<and> snd (read_loop (Suc k) c s i) = chunk_events c s i 0 @ [Read c 4096 (Inr [])]"
        by (simp add: read_loop_Suc chunk_events_def)
      then show ?thesis by blast
    next
      case False
      with Inr Suc.prems have "fst (read_loop k c s (Suc i)) = Returned ()"
        by (simp add: read_loop_Suc)
      from Suc.IH [OF this] obtain n where n: "n < k" "delivers s (Suc i) n"
        "s (Suc i + n) = Inr []"
        "snd (read_loop k c s (Suc i)) = chunk_events c s (Suc i) n @ [Read c 4096 (Inr [])]"
        by blast
      with Inr False have "Suc n < Suc k \<and> delivers s i (Suc n) \<and> s (i + Suc n) = Inr []
          \<and> snd (read_loop (Suc k) c s i) = chunk_events c s i (Suc n) @ [Read c 4096 (Inr [])]"
        by (simp add: read_loop_Suc chunk_events_Suc chunk_at_def)
      then show ?thesis by blast
    qed
  qed
qed

lemma read_all_returned:
  "read_all k s i = Returned bs \<Longrightarrow>
     \<exists>n<k. delivers s i n \<and> s (i + n) = Inr []
       \<and> bs = concat (map (chunk_at s) [i..<i + n])"
proof (induction k arbitrary: i bs)
  case 0
  then show ?case by simp
next
  case (Suc k)
  show ?case
  proof (cases "s i")
    case (Inl e)
    with Suc.prems show ?thesis by simp
  next
    case (Inr chunk)
    show ?thesis
    proof (cases "chunk = []")
      case True
      with Inr Suc.prems have "delivers s i 0 \<and> s (i + 0) = Inr []
          \<and> bs = concat (map (chunk_at s) [i..<i + 0])"
        by simp
      then show ?thesis by blast
    next
      case False
      with Inr Suc.prems obtain bs' where bs': "read_all k s (Suc i) = Returned bs'"
        "bs = chunk @ bs'"
        by (auto split: result.splits)
      from Suc.IH [OF bs'(1)] obtain n where n: "n < k" "delivers s (Suc i) n"
        "s (Suc i + n) = Inr []" "bs' = concat (map (chunk_at s) [Suc i..<Suc i + n])"
        by blast
      have "[i..<i + Suc n] = i # [Suc i..<Suc i + n]" by (simp add: upt_conv_Cons)
      with n bs'(2) Inr False have "Suc n < Suc k \<and> delivers s i (Suc n) \<and> s (i + Suc n) = Inr []
          \<and> bs = concat (map (chunk_at s) [i..<i + Suc n])"
        by (simp add: chunk_at_def)
      then show ?thesis by blast
    qed
  qed
qed

lemma read_all_breaks:
  "delivers s i n \<Longrightarrow> s (i + n) = Inl e \<Longrightarrow> n < k \<Longrightarrow> read_all k s i = Raises e"
proof (induction n arbitrary: i k)
  case 0
  then obtain j where "k = Suc j" by (cases k) simp_all
  with 0 show ?case by simp
next
  case (Suc n)
  from Suc.prems(3) obtain k' where k: "k = Suc k'" "n < k'" by (cases k) simp_all
  from Suc.prems(1) obtain chunk where ch: "s i = Inr chunk" "chunk \<noteq> []" "delivers s (Suc i) n"
    by (auto split: sum.splits)
  from Suc.prems(2) have "s (Suc i + n) = Inl e" by simp
  from Suc.IH [OF ch(3) this k(2)] ch k show ?case by simp
qed

lemma delivers_closes:
  "delivers s i n \<Longrightarrow> s (i + n) = Inr [] \<Longrightarrow> n < k \<Longrightarrow> closes_within k s i"
proof (induction n arbitrary: i k)
  case 0
  then obtain j where "k = Suc j" by (cases k) simp_all
  with 0 show ?case by simp
next
  case (Suc n)
  from Suc.prems(3) obtain k' where k: "k = Suc k'" "n < k'" by (cases k) simp_all
  from Suc.prems(1) obtain chunk where ch: "s i = Inr chunk" "chunk \<noteq> []" "delivers s (Suc i) n"
    by (auto split: sum.splits)
  from Suc.prems(2) have "s (Suc i + n) = Inr []" by simp
  from Suc.IH [OF ch(3) this k(2)] ch k show ?case by simp
qed

subsection \<open>The step between build and status\<close>

lemma mid_returns:
  assumes "exit_status b = 0 \<longrightarrow>
          (\<exists>r. exec_result env restart_cmd = Inr r \<and> closes_within k (stream r) 0)"
  shows "fst (if exit_status b = 0 then restart_step k env else print build_failed_line)
           = Returned ()"
proof (cases "exit_status b = 0")
  case True
  with assms obtain r where "exec_result env restart_cmd = Inr r"
    "closes_within k (stream r) 0" by blast
  from restart_step_returns [OF this] True show ?thesis by auto
next
  case False
  then show ?thesis by (simp add: print_def)
qed

lemma decode_replicate_a_only [simp]: "decode (replicate n 0x61) = replicate n 97"
  using decode_replicate_a [of n "[]"] by simp

lemma restart_step_RecvExit_env:
  "RecvExit c n \<in> set (snd (restart_step k env)) \<Longrightarrow>
     c = restart_cmd \<and> fst (restart_step k env) = Returned ()
     \<and> (\<exists>r bs. exec_result env restart_cmd = Inr r \<and> exit_status r = n
           \<and> read_all k (stream r) 0 = Returned bs
           \<and> snd (restart_step k env) =
               [Print ([10] @ ascii ''=== STEP 2: pm2 restart gst ===''), Exec restart_cmd,
                ReadAll restart_cmd (Inr bs), Print (decode bs)]
               @ RecvExit restart_cmd n # [Print (pm2_exit_line n)])"
  by (auto simp: restart_step_cases split: sum.splits result.splits)

subsection \<open>What follows the build\<close>

lemma after_build_RecvExit:
  assumes T_def: "T = snd (next_do (if n0 = 0 then restart_step k env else print build_failed_line)
           (\<lambda>_. status_step k env))"
   and that: "RecvExit c' n' \<in> set T"
  shows "c' = restart_cmd \<and>
      (\<exists>r bs. exec_result env restart_cmd = Inr r \<and> exit_status r = n'
         \<and> read_all k (stream r) 0 = Returned bs
         \<and> T = [Print ([10] @ ascii ''=== STEP 2: pm2 restart gst ===''), Exec restart_cmd,
                  ReadAll restart_cmd (Inr bs), Print (decode bs)]
               @ RecvExit restart_cmd n' # Print (pm2_exit_line n') # snd (status_step k env))"
  proof -
    from that RecvExit_steps(3) [of c' n' k env]
    have r: "n0 = 0" "RecvExit c' n' \<in> set (snd (restart_step k env))"
      by (auto simp: T_def next_do_after print_def split: result.splits if_splits)
    from restart_step_RecvExit_env [OF r(2)] obtain r' bs where
      f: "c' = restart_cmd" "fst (restart_step k env) = Returned ()"
      "exec_result env restart_cmd = Inr r'" "exit_status r' = n'"
      "read_all k (stream r') 0 = Returned bs"
      "snd (restart_step k env) =
               [Print ([10] @ ascii ''=== STEP 2: pm2 restart gst ===''), Exec restart_cmd,
                ReadAll restart_cmd (Inr bs), Print (decode bs)]
               @ RecvExit restart_cmd n' # [Print (pm2_exit_line n')]"
      by blast
    from f(2,6) r(1) have "T = [Print ([10] @ ascii ''=== STEP 2: pm2 restart gst ===''), Exec restart_cmd,
                  ReadAll restart_cmd (Inr bs), Print (decode bs)]
               @ RecvExit restart_cmd n' # Print (pm2_exit_line n') # snd (status_step k env)"
      by (simp add: T_def next_do_after)
    with f(1,3,4,5) show ?thesis by blast
  qed

subsection \<open>The restart and status steps write nothing chunk by chunk\<close>

lemma read_at_once_steps:
  "Write t \<notin> set (snd (restart_step k env))"
  "Flush \<notin> set (snd (restart_step k env))"
  "Write t \<notin> set (snd (status_step k env))"
  "Flush \<notin> set (snd (status_step k env))"
  by (simp_all add: step_cases split: sum.splits result.splits)

section \<open>The restart is gated by the build's exit status\<close>

text \<open>
  Claim C1. When the build command has run to the end of its output and reported its exit
  status, the run issues \<^verbatim>\<open>pm2 restart gst\<close> exactly once if that status is 0 and
  never otherwise; with a nonzero status it prints the line
  \<^verbatim>\<open>[BUILD FAILED - skipping restart]\<close> (with the dash of the source, U+2014).
  This holds whatever happens after the gate.
\<close>

theorem restart_iff_build_exit_0:
  assumes "connect_result env = None" and "exec_result env build_cmd = Inr b"
    and "closes_within k (stream b) 0"
  shows "count_list (snd (deploy k env)) (Exec restart_cmd) = (if exit_status b = 0 then 1 else 0)
     \<and> (exit_status b \<noteq> 0 \<longrightarrow> Print build_failed_line \<in> set (snd (deploy k env)))"
  using build_step_returns [OF assms] count_Exec_restart(1) [of k env]
  by (simp add: deploy_steps next_do_after print_def split: result.splits)

theorem restart_iff_build_exit_0_witness:
  "connect_result (host (says [] 1) (says [] 0) (says [] 0)) = None
   \<and> exec_result (host (says [] 1) (says [] 0) (says [] 0)) build_cmd = Inr (says [] 1)
   \<and> closes_within (Suc 0) (stream (says [] 1)) 0
   \<and> exit_status (says [] 1) = 1
   \<and> count_list (snd (deploy (Suc 0) (host (says [] 1) (says [] 0) (says [] 0)))) (Exec restart_cmd) = 0
   \<and> Print build_failed_line \<in> set (snd (deploy (Suc 0) (host (says [] 1) (says [] 0) (says [] 0))))
   \<and> exec_result (host (says [] 0) (says [] 0) (says [] 0)) build_cmd = Inr (says [] 0)
   \<and> closes_within (Suc 0) (stream (says [] 0)) 0
   \<and> count_list (snd (deploy (Suc 0) (host (says [] 0) (says [] 0) (says [] 0)))) (Exec restart_cmd) = 1"
  using restart_iff_build_exit_0 [of "host (says [] 1) (says [] 0) (says [] 0)" "says [] 1" "Suc 0"]
    restart_iff_build_exit_0 [of "host (says [] 0) (says [] 0) (says [] 0)" "says [] 0" "Suc 0"]
  by (simp add: host_def says_def)

section \<open>Closing the connection\<close>

text \<open>
  Claim C2 says that \<^verbatim>\<open>close()\<close> runs exactly once on every exit path, also when
  \<^verbatim>\<open>connect()\<close> fails or a command raises. The script has no \<^verbatim>\<open>try\<close>, so an
  exception leaves it before line 40: with an unreachable host, and with a build whose
  first read times out, the run ends with the error and \<^verbatim>\<open>close()\<close> is not called.
\<close>

theorem close_skipped_on_error:
  "fst (deploy (Suc 0) unreachable) = Raises ConnectionError
   \<and> count_list (snd (deploy (Suc 0) unreachable)) Close = 0
   \<and> fst (deploy (Suc 0) (host (breaks [] CommandTimeout) (says [] 0) (says [] 0)))
        = Raises CommandTimeout
   \<and> count_list (snd (deploy (Suc 0) (host (breaks [] CommandTimeout) (says [] 0) (says [] 0)))) Close = 0"
  by (simp add: deploy_steps step_cases next_do_after unreachable_def host_def breaks_def
      says_def prologue_def read_loop_Suc)

text \<open>
  Claim C2 as amended. \<^verbatim>\<open>close()\<close> is called exactly once in a run that reaches the
  end of the script, and not at all in a run that an error ended (or that is still
  reading); so never twice.
\<close>

theorem close_only_at_end:
  "count_list (snd (deploy k env)) Close = (if fst (deploy k env) = Returned () then 1 else 0)"
  by (simp add: deploy_steps next_do_after print_def split: result.splits)

theorem close_only_at_end_witness:
  "fst (deploy (Suc 0) (host (says [] 0) (says [] 0) (says [] 0))) = Returned ()
   \<and> count_list (snd (deploy (Suc 0) (host (says [] 0) (says [] 0) (says [] 0)))) Close = 1"
  using close_only_at_end [of "Suc 0" "host (says [] 0) (says [] 0) (says [] 0)"]
  by (simp add: deploy_steps step_cases next_do_after host_def says_def read_loop_Suc)

section \<open>The status query and the order of the steps\<close>

text \<open>
  Claim C4. In a run that reaches the end of the script (no fatal error), the commands
  issued are, in order, build, restart, status when the build exited with status 0 and
  build, status otherwise; in both cases \<^verbatim>\<open>pm2 status\<close> is issued exactly once.
\<close>

theorem step_order:
  assumes "fst (deploy k env) = Returned ()"
  shows "\<exists>b. exec_result env build_cmd = Inr b
           \<and> commands (snd (deploy k env)) =
               (if exit_status b = 0 then [build_cmd, restart_cmd, status_cmd]
                else [build_cmd, status_cmd])
           \<and> count_list (snd (deploy k env)) (Exec status_cmd) = 1"
proof -
  from assms obtain n where n: "fst (build_step k env) = Returned n"
    by (auto simp: deploy_steps next_do_after split: result.splits)
  from build_step_returned [OF n] obtain b where
    b: "exec_result env build_cmd = Inr b" "exit_status b = n" by blast
  from assms n have order:
    "commands (snd (deploy k env)) =
       (if n = 0 then [build_cmd, restart_cmd, status_cmd] else [build_cmd, status_cmd])"
    by (auto simp: deploy_steps next_do_after print_def commands_steps split: result.splits if_splits)
  then have "count_list (snd (deploy k env)) (Exec status_cmd) = 1"
    by (simp add: count_Exec_commands)
  with b order show ?thesis by simp
qed

theorem step_order_witness:
  "fst (deploy (Suc 0) (host (says [] 0) (says [] 0) (says [] 0))) = Returned ()
   \<and> commands (snd (deploy (Suc 0) (host (says [] 0) (says [] 0) (says [] 0))))
       = [build_cmd, restart_cmd, status_cmd]
   \<and> count_list (snd (deploy (Suc 0) (host (says [] 0) (says [] 0) (says [] 0)))) (Exec status_cmd) = 1
   \<and> fst (deploy (Suc 0) (host (says [] 2) (says [] 0) (says [] 0))) = Returned ()
   \<and> commands (snd (deploy (Suc 0) (host (says [] 2) (says [] 0) (says [] 0))))
       = [build_cmd, status_cmd]
   \<and> count_list (snd (deploy (Suc 0) (host (says [] 2) (says [] 0) (says [] 0)))) (Exec status_cmd) = 1"
proof -
  have r0: "fst (deploy (Suc 0) (host (says [] 0) (says [] 0) (says [] 0))) = Returned ()"
    by (simp add: deploy_steps step_cases next_do_after host_def says_def read_loop_Suc)
  have r2: "fst (deploy (Suc 0) (host (says [] 2) (says [] 0) (says [] 0))) = Returned ()"
    by (simp add: deploy_steps step_cases next_do_after host_def says_def read_loop_Suc print_def)
  show ?thesis
    using step_order [OF r0] step_order [OF r2] r0 r2 by (simp add: host_def says_def)
qed

section \<open>The exit code of the program\<close>

text \<open>
  Claim C6. For every combination of exit statuses of the remote commands: when the host
  accepts the connection and the output of each command that is run reaches end of file
  (the restart command only if the build exited with 0), the script reaches its end and
  the process exits with code 0. A nonzero build status is no error
  of the program: it is printed in the line \<^verbatim>\<open>[BUILD EXIT CODE: N]\<close> and the status
  query is issued after that line.
\<close>

theorem exits_0_at_end:
  assumes "connect_result env = None"
    and "exec_result env build_cmd = Inr b" and "closes_within k (stream b) 0"
    and "exit_status b = 0 \<longrightarrow>
          (\<exists>r. exec_result env restart_cmd = Inr r \<and> closes_within k (stream r) 0)"
    and "exec_result env status_cmd = Inr s" and "closes_within k (stream s) 0"
  shows "fst (deploy k env) = Returned ()
     \<and> process_exit_code (fst (deploy k env)) = Some 0
     \<and> (\<exists>pre post. snd (deploy k env) = pre @ Print (build_exit_line (exit_status b)) # post
            \<and> Exec status_cmd \<in> set post)"
proof -
  note build = build_step_returns [OF assms(1-3)]
  let ?mid = "if exit_status b = 0 then restart_step k env else print build_failed_line"
  have "fst ?mid = Returned ()"
  proof (cases "exit_status b = 0")
    case True
    with assms(4) obtain r where "exec_result env restart_cmd = Inr r"
      "closes_within k (stream r) 0" by blast
    from restart_step_returns [OF this] True show ?thesis by auto
  next
    case False
    then show ?thesis by (simp add: print_def)
  qed
  from status_step_returns [OF assms(5,6)] obtain bs
    where status: "status_step k env =
      (Returned (),
       [Print ([10] @ ascii ''=== STEP 3: pm2 status ===''), Exec status_cmd,
        ReadAll status_cmd (Inr bs), Print (decode bs), Close, Print (ascii ''Done.'')])"
    by blast
  let ?post = "snd ?mid @ [Print ([10] @ ascii ''=== STEP 3: pm2 status ===''), Exec status_cmd,
            ReadAll status_cmd (Inr bs), Print (decode bs), Close, Print (ascii ''Done.'')]"
  from \<open>fst ?mid = Returned ()\<close> have tr: "deploy k env =
      (Returned (),
       (prologue @ snd (read_loop k build_cmd (stream b) 0) @ [RecvExit build_cmd (exit_status b)])
       @ Print (build_exit_line (exit_status b)) # ?post)"
    unfolding deploy_steps by (simp add: next_do_after build status)
  have "Exec status_cmd \<in> set ?post" by simp
  with tr show ?thesis by (metis fst_conv snd_conv process_exit_code.simps(1))
qed

theorem exits_0_at_end_witness:
  "connect_result (host (says [] 3) (breaks [] ConnectionLost) (says [] 7)) = None
   \<and> exec_result (host (says [] 3) (breaks [] ConnectionLost) (says [] 7)) build_cmd = Inr (says [] 3)
   \<and> closes_within (Suc 0) (stream (says [] 3)) 0
   \<and> exit_status (says [] 3) \<noteq> 0
   \<and> exec_result (host (says [] 3) (breaks [] ConnectionLost) (says [] 7)) status_cmd = Inr (says [] 7)
   \<and> closes_within (Suc 0) (stream (says [] 7)) 0
   \<and> fst (deploy (Suc 0) (host (says [] 3) (breaks [] ConnectionLost) (says [] 7))) = Returned ()
   \<and> process_exit_code (fst (deploy (Suc 0) (host (says [] 3) (breaks [] ConnectionLost) (says [] 7))))
        = Some 0
   \<and> (\<exists>pre post. snd (deploy (Suc 0) (host (says [] 3) (breaks [] ConnectionLost) (says [] 7)))
          = pre @ Print (build_exit_line 3) # post \<and> Exec status_cmd \<in> set post)
   \<and> exec_result (host (says [] 0) (says [] 5) (says [] 7)) build_cmd = Inr (says [] 0)
   \<and> exit_status (says [] 0) = 0
   \<and> exec_result (host (says [] 0) (says [] 5) (says [] 7)) restart_cmd = Inr (says [] 5)
   \<and> closes_within (Suc 0) (stream (says [] 5)) 0
   \<and> exec_result (host (says [] 0) (says [] 5) (says [] 7)) status_cmd = Inr (says [] 7)
   \<and> fst (deploy (Suc 0) (host (says [] 0) (says [] 5) (says [] 7))) = Returned ()
   \<and> process_exit_code (fst (deploy (Suc 0) (host (says [] 0) (says [] 5) (says [] 7)))) = Some 0
   \<and> (\<exists>pre post. snd (deploy (Suc 0) (host (says [] 0) (says [] 5) (says [] 7)))
          = pre @ Print (build_exit_line 0) # post \<and> Exec status_cmd \<in> set post)"
  using exits_0_at_end [of "host (says [] 3) (breaks [] ConnectionLost) (says [] 7)" "says [] 3"
      "Suc 0" "says [] 7"]
    exits_0_at_end [of "host (says [] 0) (says [] 5) (says [] 7)" "says [] 0" "Suc 0" "says [] 7"]
  by (simp add: host_def says_def breaks_def)

section \<open>The exit status is passed through unchanged\<close>

text \<open>
  Claim C7. When the build's output stream has closed, the status that
  \<^verbatim>\<open>recv_exit_status\<close> hands to the script is the one the channel reports, no other
  is retrieved for that command, and it is the \<open>N\<close> of the printed line
  \<^verbatim>\<open>[BUILD EXIT CODE: N]\<close> (the formatting is injective, so the line determines the
  status). The same holds for the restart command and \<^verbatim>\<open>[PM2 EXIT: N]\<close> when it
  runs. This is for every integer status, hence for 0 to 255.
\<close>

theorem exit_status_round_trip:
  assumes "connect_result env = None" and "exec_result env build_cmd = Inr b"
    and "closes_within k (stream b) 0"
  shows "RecvExit build_cmd (exit_status b) \<in> set (snd (deploy k env))
     \<and> Print (build_exit_line (exit_status b)) \<in> set (snd (deploy k env))
     \<and> (\<forall>n. RecvExit build_cmd n \<in> set (snd (deploy k env)) \<longrightarrow> n = exit_status b)
     \<and> (\<forall>n. build_exit_line n = build_exit_line (exit_status b) \<longrightarrow> n = exit_status b)
     \<and> (\<forall>r. exit_status b = 0 \<and> exec_result env restart_cmd = Inr r
              \<and> closes_within k (stream r) 0 \<longrightarrow>
            RecvExit restart_cmd (exit_status r) \<in> set (snd (deploy k env))
            \<and> Print (pm2_exit_line (exit_status r)) \<in> set (snd (deploy k env))
            \<and> (\<forall>n. RecvExit restart_cmd n \<in> set (snd (deploy k env)) \<longrightarrow> n = exit_status r)
            \<and> (\<forall>n. pm2_exit_line n = pm2_exit_line (exit_status r) \<longrightarrow> n = exit_status r))"
proof -
  note build = build_step_returns [OF assms]
  have 1: "RecvExit build_cmd (exit_status b) \<in> set (snd (deploy k env))"
    and 2: "Print (build_exit_line (exit_status b)) \<in> set (snd (deploy k env))"
    by (simp_all add: deploy_steps next_do_after build)
  have 3: "n = exit_status b" if "RecvExit build_cmd n \<in> set (snd (deploy k env))" for n
    using that RecvExit_steps [of build_cmd n k env]
    by (auto simp: deploy_steps next_do_after build prologue_def print_def
        split: result.splits if_splits)
  have 5: "RecvExit restart_cmd (exit_status r) \<in> set (snd (deploy k env))
            \<and> Print (pm2_exit_line (exit_status r)) \<in> set (snd (deploy k env))
            \<and> (\<forall>n. RecvExit restart_cmd n \<in> set (snd (deploy k env)) \<longrightarrow> n = exit_status r)"
    if "exit_status b = 0" "exec_result env restart_cmd = Inr r" "closes_within k (stream r) 0" for r
  proof -
    from restart_step_returns [OF that(2,3)] obtain bs where
      restart: "restart_step k env =
           (Returned (),
            [Print ([10] @ ascii ''=== STEP 2: pm2 restart gst ===''), Exec restart_cmd,
             ReadAll restart_cmd (Inr bs), Print (decode bs),
             RecvExit restart_cmd (exit_status r), Print (pm2_exit_line (exit_status r))])"
      by blast
    show ?thesis
      using that(1) RecvExit_steps(3) [of restart_cmd _ k env]
      by (auto simp: deploy_steps next_do_after build restart prologue_def)
  qed
  have 4: "\<forall>n. build_exit_line n = build_exit_line (exit_status b) \<longrightarrow> n = exit_status b"
    using build_exit_line_inj by blast
  have 6: "\<forall>n. pm2_exit_line n = pm2_exit_line (exit_status r) \<longrightarrow> n = exit_status r" for r
    using pm2_exit_line_inj by blast
  from 3 have b3: "\<forall>n. RecvExit build_cmd n \<in> set (snd (deploy k env)) \<longrightarrow> n = exit_status b"
    by blast
  from 5 6 have b5: "\<forall>r. exit_status b = 0 \<and> exec_result env restart_cmd = Inr r
              \<and> closes_within k (stream r) 0 \<longrightarrow>
            RecvExit restart_cmd (exit_status r) \<in> set (snd (deploy k env))
            \<and> Print (pm2_exit_line (exit_status r)) \<in> set (snd (deploy k env))
            \<and> (\<forall>n. RecvExit restart_cmd n \<in> set (snd (deploy k env)) \<longrightarrow> n = exit_status r)
            \<and> (\<forall>n. pm2_exit_line n = pm2_exit_line (exit_status r) \<longrightarrow> n = exit_status r)"
    by blast
  from 1 2 b3 4 b5 show ?thesis
    by (intro conjI)
qed


theorem exit_status_round_trip_witness:
  "connect_result (host (says [[0x6F, 0x6B]] 255) (says [] 0) (says [] 0)) = None
   \<and> exec_result (host (says [[0x6F, 0x6B]] 255) (says [] 0) (says [] 0)) build_cmd
        = Inr (says [[0x6F, 0x6B]] 255)
   \<and> closes_within (Suc (Suc 0)) (stream (says [[0x6F, 0x6B]] 255)) 0
   \<and> RecvExit build_cmd 255
        \<in> set (snd (deploy (Suc (Suc 0)) (host (says [[0x6F, 0x6B]] 255) (says [] 0) (says [] 0))))
   \<and> Print (build_exit_line 255)
        \<in> set (snd (deploy (Suc (Suc 0)) (host (says [[0x6F, 0x6B]] 255) (says [] 0) (says [] 0))))
   \<and> exec_result (host (says [] 0) (says [] 137) (says [] 0)) build_cmd = Inr (says [] 0)
   \<and> exec_result (host (says [] 0) (says [] 137) (says [] 0)) restart_cmd = Inr (says [] 137)
   \<and> closes_within (Suc 0) (stream (says [] 0)) 0
   \<and> closes_within (Suc 0) (stream (says [] 137)) 0
   \<and> RecvExit restart_cmd 137
        \<in> set (snd (deploy (Suc 0) (host (says [] 0) (says [] 137) (says [] 0))))
   \<and> Print (pm2_exit_line 137)
        \<in> set (snd (deploy (Suc 0) (host (says [] 0) (says [] 137) (says [] 0))))"
  using exit_status_round_trip [of "host (says [[0x6F, 0x6B]] 255) (says [] 0) (says [] 0)"
      "says [[0x6F, 0x6B]] 255" "Suc (Suc 0)"]
    exit_status_round_trip [of "host (says [] 0) (says [] 137) (says [] 0)"
      "says [] 0" "Suc 0"]
  by (simp add: host_def says_def)

section \<open>Fatal errors\<close>

text \<open>
  Claim C9. An error of any kind raised by \<^verbatim>\<open>connect()\<close>, by \<^verbatim>\<open>exec_command\<close> or
  by a read ends the run with that error, at each of the seven calls that can fail: the
  connection; the \<^verbatim>\<open>exec_command\<close> and the reads of the build; the
  \<^verbatim>\<open>exec_command\<close> and the \<^verbatim>\<open>read()\<close> of the restart, reached when the build
  exited with 0; the \<^verbatim>\<open>exec_command\<close> and the \<^verbatim>\<open>read()\<close> of the status query,
  reached when the steps before it returned. In each case the failing call and its raise
  are the last events of the run. In general the raise is the last event of a run (no
  later step, no second attempt, no undoing), no error was raised before it, the process
  exits with code 1, and the console shows what was printed before the raise: for a build
  whose read fails after \<open>n\<close> chunks, those \<open>n\<close> chunks decoded.
\<close>

theorem fatal_error_ends_run:
  "(connect_result env = Some e \<longrightarrow>
      deploy k env = (Raises e, [Print (ascii ''Connecting to VPS...''), Connect, Raise e]))
   \<and> (connect_result env = None \<and> exec_result env build_cmd = Inl e \<longrightarrow>
      deploy k env = (Raises e, prologue @ [Raise e]))
   \<and> (\<forall>b n. connect_result env = None \<and> exec_result env build_cmd = Inr b
          \<and> delivers (stream b) 0 n \<and> stream b n = Inl e \<and> n < k \<longrightarrow>
      deploy k env =
        (Raises e,
         prologue @ chunk_events build_cmd (stream b) 0 n @ [Read build_cmd 4096 (Inl e), Raise e]))
   \<and> (\<forall>b. connect_result env = None \<and> exec_result env build_cmd = Inr b
          \<and> closes_within k (stream b) 0 \<and> exit_status b = 0
          \<and> exec_result env restart_cmd = Inl e \<longrightarrow>
      fst (deploy k env) = Raises e
      \<and> (\<exists>pre. snd (deploy k env) = pre @ [Exec restart_cmd, Raise e]))
   \<and> (\<forall>b r n. connect_result env = None \<and> exec_result env build_cmd = Inr b
          \<and> closes_within k (stream b) 0 \<and> exit_status b = 0
          \<and> exec_result env restart_cmd = Inr r
          \<and> delivers (stream r) 0 n \<and> stream r n = Inl e \<and> n < k \<longrightarrow>
      fst (deploy k env) = Raises e
      \<and> (\<exists>pre. snd (deploy k env) = pre @ [Exec restart_cmd, ReadAll restart_cmd (Inl e), Raise e]))
   \<and> (\<forall>b. connect_result env = None \<and> exec_result env build_cmd = Inr b
          \<and> closes_within k (stream b) 0
          \<and> (exit_status b = 0 \<longrightarrow>
               (\<exists>r. exec_result env restart_cmd = Inr r \<and> closes_within k (stream r) 0))
          \<and> exec_result env status_cmd = Inl e \<longrightarrow>
      fst (deploy k env) = Raises e
      \<and> (\<exists>pre. snd (deploy k env) = pre @ [Exec status_cmd, Raise e]))
   \<and> (\<forall>b s n. connect_result env = None \<and> exec_result env build_cmd = Inr b
          \<and> closes_within k (stream b) 0
          \<and> (exit_status b = 0 \<longrightarrow>
               (\<exists>r. exec_result env restart_cmd = Inr r \<and> closes_within k (stream r) 0))
          \<and> exec_result env status_cmd = Inr s
          \<and> delivers (stream s) 0 n \<and> stream s n = Inl e \<and> n < k \<longrightarrow>
      fst (deploy k env) = Raises e
      \<and> (\<exists>pre. snd (deploy k env) = pre @ [Exec status_cmd, ReadAll status_cmd (Inl e), Raise e]))
   \<and> (fst (deploy k env) = Raises e \<longrightarrow> Raise e \<in> set (snd (deploy k env)))
   \<and> (\<forall>pre post. snd (deploy k env) = pre @ Raise e # post \<longrightarrow>
          post = [] \<and> fst (deploy k env) = Raises e
          \<and> process_exit_code (fst (deploy k env)) = Some 1
          \<and> (\<forall>e'. Raise e' \<notin> set pre)
          \<and> console (snd (deploy k env)) = console pre)"
proof -
  have c1: "connect_result env = Some e \<longrightarrow>
      deploy k env = (Raises e, [Print (ascii ''Connecting to VPS...''), Connect, Raise e])"
    by (simp add: deploy_steps build_step_cases next_do_after)
  have c2: "connect_result env = None \<and> exec_result env build_cmd = Inl e \<longrightarrow>
      deploy k env = (Raises e, prologue @ [Raise e])"
    by (simp add: deploy_steps build_step_cases next_do_after)
  have c3: "\<forall>b n. connect_result env = None \<and> exec_result env build_cmd = Inr b
          \<and> delivers (stream b) 0 n \<and> stream b n = Inl e \<and> n < k \<longrightarrow>
      deploy k env =
        (Raises e,
         prologue @ chunk_events build_cmd (stream b) 0 n @ [Read build_cmd 4096 (Inl e), Raise e])"
  proof (intro allI impI, elim conjE)
    fix b n
    assume h: "connect_result env = None" "exec_result env build_cmd = Inr b"
      "delivers (stream b) 0 n" "stream b n = Inl e" "n < k"
    from h(4) have "stream b (0 + n) = Inl e" by simp
    from read_loop_breaks [OF h(3) this h(5), of build_cmd] h(1,2)
    show "deploy k env =
        (Raises e,
         prologue @ chunk_events build_cmd (stream b) 0 n @ [Read build_cmd 4096 (Inl e), Raise e])"
      by (simp add: deploy_steps build_step_cases next_do_after)
  qed
  have c4: "\<forall>b. connect_result env = None \<and> exec_result env build_cmd = Inr b
          \<and> closes_within k (stream b) 0 \<and> exit_status b = 0
          \<and> exec_result env restart_cmd = Inl e \<longrightarrow>
      fst (deploy k env) = Raises e
      \<and> (\<exists>pre. snd (deploy k env) = pre @ [Exec restart_cmd, Raise e])"
  proof (intro allI impI, elim conjE)
    fix b
    assume h: "connect_result env = None" "exec_result env build_cmd = Inr b"
      "closes_within k (stream b) 0" "exit_status b = 0" "exec_result env restart_cmd = Inl e"
    note build = build_step_returns [OF h(1-3)]
    have "deploy k env =
        (Raises e,
         (prologue @ snd (read_loop k build_cmd (stream b) 0)
            @ [RecvExit build_cmd (exit_status b), Print (build_exit_line (exit_status b)),
               Print ([10] @ ascii ''=== STEP 2: pm2 restart gst ==='')])
         @ [Exec restart_cmd, Raise e])"
      using h(4,5) by (simp add: deploy_steps next_do_after build restart_step_cases)
    then show "fst (deploy k env) = Raises e
      \<and> (\<exists>pre. snd (deploy k env) = pre @ [Exec restart_cmd, Raise e])"
      by (metis fst_conv snd_conv)
  qed
  have c5: "\<forall>b r n. connect_result env = None \<and> exec_result env build_cmd = Inr b
          \<and> closes_within k (stream b) 0 \<and> exit_status b = 0
          \<and> exec_result env restart_cmd = Inr r
          \<and> delivers (stream r) 0 n \<and> stream r n = Inl e \<and> n < k \<longrightarrow>
      fst (deploy k env) = Raises e
      \<and> (\<exists>pre. snd (deploy k env) = pre @ [Exec restart_cmd, ReadAll restart_cmd (Inl e), Raise e])"
  proof (intro allI impI, elim conjE)
    fix b r n
    assume h: "connect_result env = None" "exec_result env build_cmd = Inr b"
      "closes_within k (stream b) 0" "exit_status b = 0" "exec_result env restart_cmd = Inr r"
      "delivers (stream r) 0 n" "stream r n = Inl e" "n < k"
    note build = build_step_returns [OF h(1-3)]
    from h(7) have "stream r (0 + n) = Inl e" by simp
    from read_all_breaks [OF h(6) this h(8)]
    have "deploy k env =
        (Raises e,
         (prologue @ snd (read_loop k build_cmd (stream b) 0)
            @ [RecvExit build_cmd (exit_status b), Print (build_exit_line (exit_status b)),
               Print ([10] @ ascii ''=== STEP 2: pm2 restart gst ==='')])
         @ [Exec restart_cmd, ReadAll restart_cmd (Inl e), Raise e])"
      using h(4,5) by (simp add: deploy_steps next_do_after build restart_step_cases)
    then show "fst (deploy k env) = Raises e
      \<and> (\<exists>pre. snd (deploy k env) = pre @ [Exec restart_cmd, ReadAll restart_cmd (Inl e), Raise e])"
      by (metis fst_conv snd_conv)
  qed
  have c6: "\<forall>b. connect_result env = None \<and> exec_result env build_cmd = Inr b
          \<and> closes_within k (stream b) 0
          \<and> (exit_status b = 0 \<longrightarrow>
               (\<exists>r. exec_result env restart_cmd = Inr r \<and> closes_within k (stream r) 0))
          \<and> exec_result env status_cmd = Inl e \<longrightarrow>
      fst (deploy k env) = Raises e
      \<and> (\<exists>pre. snd (deploy k env) = pre @ [Exec status_cmd, Raise e])"
  proof (intro allI impI, elim conjE)
    fix b
    assume h: "connect_result env = None" "exec_result env build_cmd = Inr b"
      "closes_within k (stream b) 0"
      "exit_status b = 0 \<longrightarrow>
         (\<exists>r. exec_result env restart_cmd = Inr r \<and> closes_within k (stream r) 0)"
      "exec_result env status_cmd = Inl e"
    note build = build_step_returns [OF h(1-3)]
    let ?mid = "if exit_status b = 0 then restart_step k env else print build_failed_line"
    from mid_returns [OF h(4)] have "deploy k env =
        (Raises e,
         (prologue @ snd (read_loop k build_cmd (stream b) 0)
            @ [RecvExit build_cmd (exit_status b), Print (build_exit_line (exit_status b))]
            @ snd ?mid @ [Print ([10] @ ascii ''=== STEP 3: pm2 status ==='')])
         @ [Exec status_cmd, Raise e])"
      unfolding deploy_steps using h(5) by (simp add: next_do_after build status_step_cases)
    then show "fst (deploy k env) = Raises e
      \<and> (\<exists>pre. snd (deploy k env) = pre @ [Exec status_cmd, Raise e])"
      by (metis fst_conv snd_conv)
  qed
  have c7: "\<forall>b s n. connect_result env = None \<and> exec_result env build_cmd = Inr b
          \<and> closes_within k (stream b) 0
          \<and> (exit_status b = 0 \<longrightarrow>
               (\<exists>r. exec_result env restart_cmd = Inr r \<and> closes_within k (stream r) 0))
          \<and> exec_result env status_cmd = Inr s
          \<and> delivers (stream s) 0 n \<and> stream s n = Inl e \<and> n < k \<longrightarrow>
      fst (deploy k env) = Raises e
      \<and> (\<exists>pre. snd (deploy k env) = pre @ [Exec status_cmd, ReadAll status_cmd (Inl e), Raise e])"
  proof (intro allI impI, elim conjE)
    fix b s n
    assume h: "connect_result env = None" "exec_result env build_cmd = Inr b"
      "closes_within k (stream b) 0"
      "exit_status b = 0 \<longrightarrow>
         (\<exists>r. exec_result env restart_cmd = Inr r \<and> closes_within k (stream r) 0)"
      "exec_result env status_cmd = Inr s"
      "delivers (stream s) 0 n" "stream s n = Inl e" "n < k"
    note build = build_step_returns [OF h(1-3)]
    let ?mid = "if exit_status b = 0 then restart_step k env else print build_failed_line"
    from h(7) have "stream s (0 + n) = Inl e" by simp
    from read_all_breaks [OF h(6) this h(8)] mid_returns [OF h(4)] have "deploy k env =
        (Raises e,
         (prologue @ snd (read_loop k build_cmd (stream b) 0)
            @ [RecvExit build_cmd (exit_status b), Print (build_exit_line (exit_status b))]
            @ snd ?mid @ [Print ([10] @ ascii ''=== STEP 3: pm2 status ==='')])
         @ [Exec status_cmd, ReadAll status_cmd (Inl e), Raise e])"
      unfolding deploy_steps using h(5) by (simp add: next_do_after build status_step_cases)
    then show "fst (deploy k env) = Raises e
      \<and> (\<exists>pre. snd (deploy k env) = pre @ [Exec status_cmd, ReadAll status_cmd (Inl e), Raise e])"
      by (metis fst_conv snd_conv)
  qed
  have c8: "fst (deploy k env) = Raises e \<longrightarrow> Raise e \<in> set (snd (deploy k env))"
    using ends_at_raise_deploy [of k env] by (auto simp: ends_at_raise_def)
  have c9: "\<forall>pre post. snd (deploy k env) = pre @ Raise e # post \<longrightarrow>
          post = [] \<and> fst (deploy k env) = Raises e
          \<and> process_exit_code (fst (deploy k env)) = Some 1
          \<and> (\<forall>e'. Raise e' \<notin> set pre)
          \<and> console (snd (deploy k env)) = console pre"
  proof (intro allI impI)
    fix pre post
    assume tr: "snd (deploy k env) = pre @ Raise e # post"
    then have mem: "Raise e \<in> set (snd (deploy k env))" by simp
    with ends_at_raise_deploy [of k env] obtain e0 A where
      e0: "fst (deploy k env) = Raises e0" and A: "snd (deploy k env) = A @ [Raise e0]"
      and clean: "\<forall>e'. Raise e' \<notin> set A"
      by (cases "fst (deploy k env)") (auto simp: ends_at_raise_def)
    from mem A clean have "e0 = e" by auto
    with A tr have "A @ Raise e # [] = pre @ Raise e # post" by simp
    moreover from clean have "Raise e \<notin> set A" by blast
    ultimately have split: "pre = A \<and> post = []"
      by (intro unique_split) simp_all
    with e0 \<open>e0 = e\<close> clean tr show "post = [] \<and> fst (deploy k env) = Raises e
          \<and> process_exit_code (fst (deploy k env)) = Some 1
          \<and> (\<forall>e'. Raise e' \<notin> set pre)
          \<and> console (snd (deploy k env)) = console pre"
      by simp
  qed
  from c1 c2 c3 c4 c5 c6 c7 c8 c9 show ?thesis by (intro conjI)
qed


theorem fatal_error_ends_run_witness:
  "connect_result unreachable = Some ConnectionError
   \<and> deploy (Suc 0) unreachable
       = (Raises ConnectionError, [Print (ascii ''Connecting to VPS...''), Connect, Raise ConnectionError])
   \<and> connect_result (host (breaks [replicate 4096 0x61] CommandTimeout) (says [] 0) (says [] 0)) = None
   \<and> exec_result (host (breaks [replicate 4096 0x61] CommandTimeout) (says [] 0) (says [] 0)) build_cmd
       = Inr (breaks [replicate 4096 0x61] CommandTimeout)
   \<and> delivers (stream (breaks [replicate 4096 0x61] CommandTimeout)) 0 (Suc 0)
   \<and> stream (breaks [replicate 4096 0x61] CommandTimeout) (Suc 0) = Inl CommandTimeout
   \<and> Suc 0 < Suc (Suc 0)
   \<and> deploy (Suc (Suc 0)) (host (breaks [replicate 4096 0x61] CommandTimeout) (says [] 0) (says [] 0))
       = (Raises CommandTimeout,
          prologue @ chunk_events build_cmd (stream (breaks [replicate 4096 0x61] CommandTimeout)) 0 (Suc 0)
            @ [Read build_cmd 4096 (Inl CommandTimeout), Raise CommandTimeout])
   \<and> process_exit_code
         (fst (deploy (Suc (Suc 0)) (host (breaks [replicate 4096 0x61] CommandTimeout) (says [] 0) (says [] 0))))
       = Some 1
   \<and> console (snd (deploy (Suc (Suc 0)) (host (breaks [replicate 4096 0x61] CommandTimeout) (says [] 0) (says [] 0))))
       = console prologue @ replicate 4096 97
   \<and> exec_result (host (says [] 0) (breaks [] ConnectionLost) (says [] 0)) build_cmd = Inr (says [] 0)
   \<and> closes_within (Suc 0) (stream (says [] 0)) 0
   \<and> exit_status (says [] 0) = 0
   \<and> exec_result (host (says [] 0) (breaks [] ConnectionLost) (says [] 0)) restart_cmd
       = Inr (breaks [] ConnectionLost)
   \<and> delivers (stream (breaks [] ConnectionLost)) 0 0
   \<and> stream (breaks [] ConnectionLost) 0 = Inl ConnectionLost
   \<and> fst (deploy (Suc 0) (host (says [] 0) (breaks [] ConnectionLost) (says [] 0))) = Raises ConnectionLost
   \<and> (\<exists>pre. snd (deploy (Suc 0) (host (says [] 0) (breaks [] ConnectionLost) (says [] 0)))
         = pre @ [Exec restart_cmd, ReadAll restart_cmd (Inl ConnectionLost), Raise ConnectionLost])"
proof -
  let ?b = "breaks [replicate 4096 0x61] CommandTimeout"
  let ?H = "host ?b (says [] 0) (says [] 0)"
  let ?r = "breaks [] ConnectionLost"
  let ?G = "host (says [] 0) ?r (says [] 0)"
  let ?pre = "prologue @ chunk_events build_cmd (stream ?b) 0 (Suc 0)
      @ [Read build_cmd 4096 (Inl CommandTimeout)]"
  have h1: "connect_result unreachable = Some ConnectionError" by (simp add: unreachable_def)
  note r1 = fatal_error_ends_run [of unreachable ConnectionError "Suc 0", THEN conjunct1,
      rule_format, OF h1]
  have h3: "connect_result ?H = None \<and> exec_result ?H build_cmd = Inr ?b
      \<and> delivers (stream ?b) 0 (Suc 0) \<and> stream ?b (Suc 0) = Inl CommandTimeout
      \<and> Suc 0 < Suc (Suc 0)"
    by (simp add: host_def breaks_def)
  note r3 = fatal_error_ends_run [of ?H CommandTimeout "Suc (Suc 0)", THEN conjunct2,
      THEN conjunct2, THEN conjunct1, rule_format, OF h3]
  then have tr: "snd (deploy (Suc (Suc 0)) ?H) = ?pre @ Raise CommandTimeout # []" by simp
  note r9 = fatal_error_ends_run [of ?H CommandTimeout "Suc (Suc 0)", THEN conjunct2,
      THEN conjunct2, THEN conjunct2, THEN conjunct2, THEN conjunct2, THEN conjunct2,
      THEN conjunct2, THEN conjunct2, rule_format, OF tr]
  have "console ?pre = console prologue @ replicate 4096 97"
    by (simp add: console_chunk_events chunk_at_def breaks_def)
  with r9 have code: "process_exit_code (fst (deploy (Suc (Suc 0)) ?H)) = Some 1"
    and shown: "console (snd (deploy (Suc (Suc 0)) ?H)) = console prologue @ replicate 4096 97"
    by simp_all
  have h5: "connect_result ?G = None \<and> exec_result ?G build_cmd = Inr (says [] 0)
      \<and> closes_within (Suc 0) (stream (says [] 0)) 0 \<and> exit_status (says [] 0) = 0
      \<and> exec_result ?G restart_cmd = Inr ?r
      \<and> delivers (stream ?r) 0 0 \<and> stream ?r 0 = Inl ConnectionLost \<and> 0 < Suc 0"
    by (simp add: host_def says_def breaks_def)
  note r5 = fatal_error_ends_run [of ?G ConnectionLost "Suc 0", THEN conjunct2,
      THEN conjunct2, THEN conjunct2, THEN conjunct2, THEN conjunct1, rule_format, OF h5]
  from h1 r1 h3 r3 code shown h5 r5 show ?thesis by (intro conjI) (elim conjE, assumption)+
qed

section \<open>No command after the connection is closed\<close>

text \<open>
  Claim C10. Wherever \<^verbatim>\<open>close()\<close> occurs in a run, nothing that uses the connection
  comes after it (no \<^verbatim>\<open>exec_command\<close>, no read, no \<^verbatim>\<open>recv_exit_status\<close>), and
  \<^verbatim>\<open>close()\<close> occurs neither before nor after that place a second time.
\<close>

theorem no_command_after_close:
  assumes "snd (deploy k env) = pre @ Close # post"
  shows "(\<forall>c. Exec c \<notin> set post) \<and> (\<forall>c n r. Read c n r \<notin> set post)
     \<and> (\<forall>c r. ReadAll c r \<notin> set post) \<and> (\<forall>c n. RecvExit c n \<notin> set post)
     \<and> Close \<notin> set pre \<and> Close \<notin> set post"
proof -
  have "Close \<in> set (snd (deploy k env))" using assms by simp
  then have "count_list (snd (deploy k env)) Close \<noteq> 0" by (simp add: count_list_0_iff)
  then have "fst (deploy k env) = Returned ()"
    by (simp add: count_Close_deploy split: if_splits)
  from deploy_returned_Close [OF this] obtain A where
    A: "snd (deploy k env) = A @ Close # [Print (ascii ''Done.'')]" "Close \<notin> set A" by blast
  have "Close \<notin> set [Print (ascii ''Done.'')]" by simp
  moreover from A(1) assms have "A @ Close # [Print (ascii ''Done.'')] = pre @ Close # post"
    by simp
  ultimately have "pre = A \<and> post = [Print (ascii ''Done.'')]"
    using A(2) by (intro unique_split)
  with A(2) show ?thesis by simp
qed


theorem no_command_after_close_witness:
  "snd (deploy (Suc 0) (host (says [] 1) (says [] 0) (says [] 0)))
     = (prologue @ [Read build_cmd 4096 (Inr []), RecvExit build_cmd 1, Print (build_exit_line 1),
          Print build_failed_line, Print ([10] @ ascii ''=== STEP 3: pm2 status ===''),
          Exec status_cmd, ReadAll status_cmd (Inr []), Print []])
       @ Close # [Print (ascii ''Done.'')]
   \<and> (\<forall>c. Exec c \<notin> set [Print (ascii ''Done.'')])
   \<and> (\<forall>c n r. Read c n r \<notin> set [Print (ascii ''Done.'')])
   \<and> (\<forall>c r. ReadAll c r \<notin> set [Print (ascii ''Done.'')])
   \<and> (\<forall>c n. RecvExit c n \<notin> set [Print (ascii ''Done.'')])
   \<and> Close \<notin> set (prologue @ [Read build_cmd 4096 (Inr []), RecvExit build_cmd 1,
          Print (build_exit_line 1), Print build_failed_line,
          Print ([10] @ ascii ''=== STEP 3: pm2 status ===''),
          Exec status_cmd, ReadAll status_cmd (Inr []), Print []])
   \<and> Close \<notin> set [Print (ascii ''Done.'')]"
proof -
  let ?H = "host (says [] 1) (says [] 0) (says [] 0)"
  have tr: "snd (deploy (Suc 0) ?H)
     = (prologue @ [Read build_cmd 4096 (Inr []), RecvExit build_cmd 1, Print (build_exit_line 1),
          Print build_failed_line, Print ([10] @ ascii ''=== STEP 3: pm2 status ===''),
          Exec status_cmd, ReadAll status_cmd (Inr []), Print []])
       @ Close # [Print (ascii ''Done.'')]"
    by (simp add: deploy_steps step_cases next_do_after host_def says_def read_loop_Suc print_def)
  from no_command_after_close [OF tr] tr show ?thesis by blast
qed

section \<open>The exit status is retrieved after the stream is drained\<close>

text \<open>
  Claim C8. Wherever \<^verbatim>\<open>recv_exit_status\<close> is called for a command, that command's
  output stream has reached end of file before: the stream of its channel closes, after
  some number \<open>m\<close> of chunks, within the reads the run made, and what precedes the call
  is the complete reading of it. For the build these are the \<open>m\<close> chunk reads of the
  loop followed by the read that returned the empty chunk; for the restart it is the one
  \<^verbatim>\<open>read()\<close> that returned all \<open>m\<close> chunks. No read of that command's stream follows
  the call, and the status retrieved is the one of that channel. The model is sequential,
  so each call returns before the next statement starts.
\<close>

theorem exit_status_after_drain:
  assumes tr: "snd (deploy k env) = pre @ RecvExit c n # post"
  shows "\<exists>ch m. exec_result env c = Inr ch \<and> exit_status ch = n
           \<and> closes_within k (stream ch) 0
           \<and> delivers (stream ch) 0 m \<and> stream ch m = Inr []
           \<and> (c = build_cmd
                \<and> pre = prologue @ chunk_events build_cmd (stream ch) 0 m
                          @ [Read build_cmd 4096 (Inr [])]
              \<or> c = restart_cmd
                \<and> (\<exists>pre'. pre = pre'
                      @ [Exec restart_cmd,
                         ReadAll restart_cmd (Inr (concat (map (chunk_at (stream ch)) [0..<m]))),
                         Print (decode (concat (map (chunk_at (stream ch)) [0..<m])))]))
           \<and> (Read c 4096 (Inr []) \<in> set pre \<or> (\<exists>bs. ReadAll c (Inr bs) \<in> set pre))
           \<and> (\<forall>m' r. Read c m' r \<notin> set post) \<and> (\<forall>r. ReadAll c r \<notin> set post)"
proof -
  let ?x = "RecvExit c n"
  from tr have mem: "?x \<in> set (snd (deploy k env))" by simp
  have "\<exists>n0. fst (build_step k env) = Returned n0"
  proof (cases "fst (build_step k env)")
    case (Returned n0)
    then show ?thesis by blast
  next
    case (Raises e)
    with mem have "?x \<in> set (snd (build_step k env))" by (simp add: deploy_steps next_do_after)
    from RecvExit_steps(1) [OF this] Raises show ?thesis by simp
  next
    case Unfinished
    with mem have "?x \<in> set (snd (build_step k env))" by (simp add: deploy_steps next_do_after)
    from RecvExit_steps(1) [OF this] Unfinished show ?thesis by simp
  qed
  then obtain n0 where n0: "fst (build_step k env) = Returned n0" by blast
  from build_step_returned [OF n0] obtain b where
    bb: "connect_result env = None \<and> exec_result env build_cmd = Inr b \<and> exit_status b = n0
           \<and> fst (read_loop k build_cmd (stream b) 0) = Returned ()
           \<and> snd (build_step k env) =
               prologue @ snd (read_loop k build_cmd (stream b) 0)
                 @ [RecvExit build_cmd n0, Print (build_exit_line n0)]" ..
  then have eof: "fst (read_loop k build_cmd (stream b) 0) = Returned ()" by (elim conjE)
  from bb have b: "exec_result env build_cmd = Inr b" by (elim conjE)
  from bb have b0: "exit_status b = n0" by (elim conjE)
  from bb have build: "snd (build_step k env) =
       prologue @ snd (read_loop k build_cmd (stream b) 0)
         @ [RecvExit build_cmd n0, Print (build_exit_line n0)]"
    by (elim conjE)
  let ?L = "snd (read_loop k build_cmd (stream b) 0)"
  define T where
    "T = snd (next_do (if n0 = 0 then restart_step k env else print build_failed_line)
           (\<lambda>_. status_step k env))"
  have whole: "snd (deploy k env) =
      prologue @ ?L @ [RecvExit build_cmd n0, Print (build_exit_line n0)] @ T"
    unfolding deploy_steps T_def by (subst next_do_after) (simp add: n0 build)
  have T_reads: "Read c' m r \<notin> set T" for c' m r
    using reads_in_steps(3,5) [of c' m r k env]
    by (auto simp: T_def next_do_after print_def split: result.splits if_splits)
  have T_all: "c' = restart_cmd \<or> c' = status_cmd" if "ReadAll c' r \<in> set T" for c' r
    using that reads_in_steps(4,6) [of c' r k env]
    by (auto simp: T_def next_do_after print_def split: result.splits if_splits)
  note T_recv = after_build_RecvExit [OF T_def]
  note T_cmd = after_build_RecvExit [OF T_def, THEN conjunct1]
  show ?thesis
  proof (cases "c = build_cmd")
    case True
    from mem T_cmd [of c n] True have "n = n0"
      by (auto simp: whole prologue_def)
    from read_loop_returned [OF eof] obtain m where m: "m < k" "delivers (stream b) 0 m"
      "stream b (0 + m) = Inr []"
      "?L = chunk_events build_cmd (stream b) 0 m @ [Read build_cmd 4096 (Inr [])]"
      by blast
    from delivers_closes [OF m(2,3,1)] have closes: "closes_within k (stream b) 0" .
    let ?A = "prologue @ ?L" and ?B = "Print (build_exit_line n0) # T"
    have "?x \<notin> set ?A" by (simp add: prologue_def)
    moreover have "?x \<notin> set ?B" using T_cmd [of c n] True by auto
    moreover from tr whole True \<open>n = n0\<close> have "?A @ ?x # ?B = pre @ ?x # post" by simp
    ultimately have split: "pre = ?A \<and> post = ?B" by (rule unique_split)
    have 1: "exec_result env c = Inr b" and e1: "exit_status b = n"
      using b b0 True \<open>n = n0\<close> by simp_all
    have 2: "delivers (stream b) 0 m" and e2: "stream b m = Inr []" using m by simp_all
    have "c = build_cmd
        \<and> pre = prologue @ chunk_events build_cmd (stream b) 0 m @ [Read build_cmd 4096 (Inr [])]"
      using True split m(4) by simp
    then have 3: "c = build_cmd
                \<and> pre = prologue @ chunk_events build_cmd (stream b) 0 m
                          @ [Read build_cmd 4096 (Inr [])]
              \<or> c = restart_cmd
                \<and> (\<exists>pre'. pre = pre'
                      @ [Exec restart_cmd,
                         ReadAll restart_cmd (Inr (concat (map (chunk_at (stream b)) [0..<m]))),
                         Print (decode (concat (map (chunk_at (stream b)) [0..<m])))])"
      by (rule disjI1)
    have "Read c 4096 (Inr []) \<in> set pre"
      using read_loop_returned_eof [OF eof] True split by simp
    then have 4: "Read c 4096 (Inr []) \<in> set pre \<or> (\<exists>bs. ReadAll c (Inr bs) \<in> set pre)"
      by (rule disjI1)
    have 5: "\<forall>m' r. Read c m' r \<notin> set post" using T_reads split by simp
    have "ReadAll c r \<notin> set post" for r using T_all [of c r] True split by auto
    then have 6: "\<forall>r. ReadAll c r \<notin> set post" by (rule allI)
    from 1 e1 closes 2 e2 3 4 5 6 have "exec_result env c = Inr b \<and> exit_status b = n
           \<and> closes_within k (stream b) 0
           \<and> delivers (stream b) 0 m \<and> stream b m = Inr []
           \<and> (c = build_cmd
                \<and> pre = prologue @ chunk_events build_cmd (stream b) 0 m
                          @ [Read build_cmd 4096 (Inr [])]
              \<or> c = restart_cmd
                \<and> (\<exists>pre'. pre = pre'
                      @ [Exec restart_cmd,
                         ReadAll restart_cmd (Inr (concat (map (chunk_at (stream b)) [0..<m]))),
                         Print (decode (concat (map (chunk_at (stream b)) [0..<m])))]))
           \<and> (Read c 4096 (Inr []) \<in> set pre \<or> (\<exists>bs. ReadAll c (Inr bs) \<in> set pre))
           \<and> (\<forall>m' r. Read c m' r \<notin> set post) \<and> (\<forall>r. ReadAll c r \<notin> set post)"
      by (intro conjI)
    then show ?thesis by (intro exI)
  next
    case False
    with mem have "?x \<in> set T" by (auto simp: whole prologue_def)
    from T_cmd [OF this] have c: "c = restart_cmd" .
    from T_recv [OF \<open>?x \<in> set T\<close>] obtain r bs where
      rT: "exec_result env restart_cmd = Inr r \<and> exit_status r = n
         \<and> read_all k (stream r) 0 = Returned bs
         \<and> T = [Print ([10] @ ascii ''=== STEP 2: pm2 restart gst ===''), Exec restart_cmd,
                  ReadAll restart_cmd (Inr bs), Print (decode bs)]
               @ RecvExit restart_cmd n # Print (pm2_exit_line n) # snd (status_step k env)"
      by (elim conjE exE) (rule that, intro conjI)
    from rT have r1: "exec_result env restart_cmd = Inr r" by (elim conjE)
    from rT have r2: "exit_status r = n" by (elim conjE)
    from rT have r3: "read_all k (stream r) 0 = Returned bs" by (elim conjE)
    from rT have T: "T = [Print ([10] @ ascii ''=== STEP 2: pm2 restart gst ===''), Exec restart_cmd,
                  ReadAll restart_cmd (Inr bs), Print (decode bs)]
               @ RecvExit restart_cmd n # Print (pm2_exit_line n) # snd (status_step k env)"
      by (elim conjE)
    from read_all_returned [OF r3] obtain m where m: "m < k" "delivers (stream r) 0 m"
      "stream r (0 + m) = Inr []" "bs = concat (map (chunk_at (stream r)) [0..<0 + m])"
      by blast
    from delivers_closes [OF m(2,3,1)] have closes: "closes_within k (stream r) 0" .
    let ?P = "prologue @ ?L @ [RecvExit build_cmd n0, Print (build_exit_line n0)]
        @ [Print ([10] @ ascii ''=== STEP 2: pm2 restart gst ==='')]"
    let ?A = "?P @ [Exec restart_cmd, ReadAll restart_cmd (Inr bs), Print (decode bs)]"
    let ?B = "Print (pm2_exit_line n) # snd (status_step k env)"
    have "?x \<notin> set ?A" using c by (simp add: prologue_def)
    moreover have "?x \<notin> set ?B" using RecvExit_steps(3) [of c n k env] by simp
    moreover from tr whole T c have "?A @ ?x # ?B = pre @ ?x # post" by simp
    ultimately have split: "pre = ?A \<and> post = ?B" by (rule unique_split)
    have 1: "exec_result env c = Inr r" and e1: "exit_status r = n" using r1 r2 c by simp_all
    have 2: "delivers (stream r) 0 m" and e2: "stream r m = Inr []" using m by simp_all
    from split m(4) have "pre = ?P
          @ [Exec restart_cmd,
             ReadAll restart_cmd (Inr (concat (map (chunk_at (stream r)) [0..<m]))),
             Print (decode (concat (map (chunk_at (stream r)) [0..<m])))]"
      by simp
    then have "\<exists>pre'. pre = pre'
              @ [Exec restart_cmd,
                 ReadAll restart_cmd (Inr (concat (map (chunk_at (stream r)) [0..<m]))),
                 Print (decode (concat (map (chunk_at (stream r)) [0..<m])))]"
      by (rule exI)
    with c have 3: "c = build_cmd
                \<and> pre = prologue @ chunk_events build_cmd (stream r) 0 m
                          @ [Read build_cmd 4096 (Inr [])]
              \<or> c = restart_cmd
                \<and> (\<exists>pre'. pre = pre'
                      @ [Exec restart_cmd,
                         ReadAll restart_cmd (Inr (concat (map (chunk_at (stream r)) [0..<m]))),
                         Print (decode (concat (map (chunk_at (stream r)) [0..<m])))])"
      by (intro disjI2 conjI)
    have "ReadAll c (Inr bs) \<in> set pre" using c split by simp
    then have "\<exists>bs. ReadAll c (Inr bs) \<in> set pre" by (rule exI)
    then have 4: "Read c 4096 (Inr []) \<in> set pre \<or> (\<exists>bs. ReadAll c (Inr bs) \<in> set pre)"
      by (rule disjI2)
    have "Read c m' r' \<notin> set post" for m' r'
      using reads_in_steps(5) [of c m' r' k env] split by simp
    then have 5: "\<forall>m' r. Read c m' r \<notin> set post" by blast
    have "ReadAll c r' \<notin> set post" for r'
      using reads_in_steps(6) [of c r' k env] c split by auto
    then have 6: "\<forall>r. ReadAll c r \<notin> set post" by (rule allI)
    from 1 e1 closes 2 e2 3 4 5 6 have "exec_result env c = Inr r \<and> exit_status r = n
           \<and> closes_within k (stream r) 0
           \<and> delivers (stream r) 0 m \<and> stream r m = Inr []
           \<and> (c = build_cmd
                \<and> pre = prologue @ chunk_events build_cmd (stream r) 0 m
                          @ [Read build_cmd 4096 (Inr [])]
              \<or> c = restart_cmd
                \<and> (\<exists>pre'. pre = pre'
                      @ [Exec restart_cmd,
                         ReadAll restart_cmd (Inr (concat (map (chunk_at (stream r)) [0..<m]))),
                         Print (decode (concat (map (chunk_at (stream r)) [0..<m])))]))
           \<and> (Read c 4096 (Inr []) \<in> set pre \<or> (\<exists>bs. ReadAll c (Inr bs) \<in> set pre))
           \<and> (\<forall>m' r. Read c m' r \<notin> set post) \<and> (\<forall>r. ReadAll c r \<notin> set post)"
      by (intro conjI)
    then show ?thesis by (intro exI)
  qed
qed

theorem exit_status_after_drain_witness:
  "snd (deploy (Suc (Suc 0)) (host (says [[0x6F, 0x6B]] 0) (says [[0x70, 0x6D]] 5) (says [] 0)))
     = (prologue @ [Read build_cmd 4096 (Inr [0x6F, 0x6B]), Write [111, 107], Flush,
          Read build_cmd 4096 (Inr [])])
       @ RecvExit build_cmd 0 # ([Print (build_exit_line 0), Print ([10] @ ascii ''=== STEP 2: pm2 restart gst ===''),
          Exec restart_cmd, ReadAll restart_cmd (Inr [0x70, 0x6D]), Print [112, 109]]
        @ RecvExit restart_cmd 5 # [Print (pm2_exit_line 5), Print ([10] @ ascii ''=== STEP 3: pm2 status ===''),
          Exec status_cmd, ReadAll status_cmd (Inr []), Print [], Close, Print (ascii ''Done.'')])
   \<and> (\<exists>ch m. exec_result (host (says [[0x6F, 0x6B]] 0) (says [[0x70, 0x6D]] 5) (says [] 0)) build_cmd = Inr ch \<and> exit_status ch = 0
        \<and> closes_within (Suc (Suc 0)) (stream ch) 0
        \<and> delivers (stream ch) 0 m \<and> stream ch m = Inr []
        \<and> (build_cmd = build_cmd
             \<and> (prologue @ [Read build_cmd 4096 (Inr [0x6F, 0x6B]), Write [111, 107], Flush,
          Read build_cmd 4096 (Inr [])]) = prologue @ chunk_events build_cmd (stream ch) 0 m
                          @ [Read build_cmd 4096 (Inr [])]
           \<or> build_cmd = restart_cmd
             \<and> (\<exists>pre'. (prologue @ [Read build_cmd 4096 (Inr [0x6F, 0x6B]), Write [111, 107], Flush,
          Read build_cmd 4096 (Inr [])]) = pre'
                   @ [Exec restart_cmd,
                      ReadAll restart_cmd (Inr (concat (map (chunk_at (stream ch)) [0..<m]))),
                      Print (decode (concat (map (chunk_at (stream ch)) [0..<m])))]))
        \<and> (Read build_cmd 4096 (Inr []) \<in> set ((prologue @ [Read build_cmd 4096 (Inr [0x6F, 0x6B]), Write [111, 107], Flush,
          Read build_cmd 4096 (Inr [])]))
           \<or> (\<exists>bs. ReadAll build_cmd (Inr bs) \<in> set ((prologue @ [Read build_cmd 4096 (Inr [0x6F, 0x6B]), Write [111, 107], Flush,
          Read build_cmd 4096 (Inr [])]))))
        \<and> (\<forall>m' r. Read build_cmd m' r \<notin> set ([Print (build_exit_line 0), Print ([10] @ ascii ''=== STEP 2: pm2 restart gst ===''),
          Exec restart_cmd, ReadAll restart_cmd (Inr [0x70, 0x6D]), Print [112, 109]]
        @ RecvExit restart_cmd 5 # [Print (pm2_exit_line 5), Print ([10] @ ascii ''=== STEP 3: pm2 status ===''),
          Exec status_cmd, ReadAll status_cmd (Inr []), Print [], Close, Print (ascii ''Done.'')]))
        \<and> (\<forall>r. ReadAll build_cmd r \<notin> set ([Print (build_exit_line 0), Print ([10] @ ascii ''=== STEP 2: pm2 restart gst ===''),
          Exec restart_cmd, ReadAll restart_cmd (Inr [0x70, 0x6D]), Print [112, 109]]
        @ RecvExit restart_cmd 5 # [Print (pm2_exit_line 5), Print ([10] @ ascii ''=== STEP 3: pm2 status ===''),
          Exec status_cmd, ReadAll status_cmd (Inr []), Print [], Close, Print (ascii ''Done.'')])))
   \<and> snd (deploy (Suc (Suc 0)) (host (says [[0x6F, 0x6B]] 0) (says [[0x70, 0x6D]] 5) (says [] 0)))
     = ((prologue @ [Read build_cmd 4096 (Inr [0x6F, 0x6B]), Write [111, 107], Flush,
          Read build_cmd 4096 (Inr [])])
        @ RecvExit build_cmd 0 # [Print (build_exit_line 0), Print ([10] @ ascii ''=== STEP 2: pm2 restart gst ===''),
          Exec restart_cmd, ReadAll restart_cmd (Inr [0x70, 0x6D]), Print [112, 109]])
       @ RecvExit restart_cmd 5 # [Print (pm2_exit_line 5), Print ([10] @ ascii ''=== STEP 3: pm2 status ===''),
          Exec status_cmd, ReadAll status_cmd (Inr []), Print [], Close, Print (ascii ''Done.'')]
   \<and> (\<exists>ch m. exec_result (host (says [[0x6F, 0x6B]] 0) (says [[0x70, 0x6D]] 5) (says [] 0)) restart_cmd = Inr ch \<and> exit_status ch = 5
        \<and> closes_within (Suc (Suc 0)) (stream ch) 0
        \<and> delivers (stream ch) 0 m \<and> stream ch m = Inr []
        \<and> (restart_cmd = build_cmd
             \<and> ((prologue @ [Read build_cmd 4096 (Inr [0x6F, 0x6B]), Write [111, 107], Flush,
          Read build_cmd 4096 (Inr [])])
        @ RecvExit build_cmd 0 # [Print (build_exit_line 0), Print ([10] @ ascii ''=== STEP 2: pm2 restart gst ===''),
          Exec restart_cmd, ReadAll restart_cmd (Inr [0x70, 0x6D]), Print [112, 109]]) = prologue @ chunk_events build_cmd (stream ch) 0 m
                          @ [Read build_cmd 4096 (Inr [])]
           \<or> restart_cmd = restart_cmd
             \<and> (\<exists>pre'. ((prologue @ [Read build_cmd 4096 (Inr [0x6F, 0x6B]), Write [111, 107], Flush,
          Read build_cmd 4096 (Inr [])])
        @ RecvExit build_cmd 0 # [Print (build_exit_line 0), Print ([10] @ ascii ''=== STEP 2: pm2 restart gst ===''),
          Exec restart_cmd, ReadAll restart_cmd (Inr [0x70, 0x6D]), Print [112, 109]]) = pre'
                   @ [Exec restart_cmd,
                      ReadAll restart_cmd (Inr (concat (map (chunk_at (stream ch)) [0..<m]))),
                      Print (decode (concat (map (chunk_at (stream ch)) [0..<m])))]))
        \<and> (Read restart_cmd 4096 (Inr []) \<in> set (((prologue @ [Read build_cmd 4096 (Inr [0x6F, 0x6B]), Write [111, 107], Flush,
          Read build_cmd 4096 (Inr [])])
        @ RecvExit build_cmd 0 # [Print (build_exit_line 0), Print ([10] @ ascii ''=== STEP 2: pm2 restart gst ===''),
          Exec restart_cmd, ReadAll restart_cmd (Inr [0x70, 0x6D]), Print [112, 109]]))
           \<or> (\<exists>bs. ReadAll restart_cmd (Inr bs) \<in> set (((prologue @ [Read build_cmd 4096 (Inr [0x6F, 0x6B]), Write [111, 107], Flush,
          Read build_cmd 4096 (Inr [])])
        @ RecvExit build_cmd 0 # [Print (build_exit_line 0), Print ([10] @ ascii ''=== STEP 2: pm2 restart gst ===''),
          Exec restart_cmd, ReadAll restart_cmd (Inr [0x70, 0x6D]), Print [112, 109]]))))
        \<and> (\<forall>m' r. Read restart_cmd m' r \<notin> set [Print (pm2_exit_line 5), Print ([10] @ ascii ''=== STEP 3: pm2 status ===''),
          Exec status_cmd, ReadAll status_cmd (Inr []), Print [], Close, Print (ascii ''Done.'')])
        \<and> (\<forall>r. ReadAll restart_cmd r \<notin> set [Print (pm2_exit_line 5), Print ([10] @ ascii ''=== STEP 3: pm2 status ===''),
          Exec status_cmd, ReadAll status_cmd (Inr []), Print [], Close, Print (ascii ''Done.'')]))"
proof -
  have trB: "snd (deploy (Suc (Suc 0)) (host (says [[0x6F, 0x6B]] 0) (says [[0x70, 0x6D]] 5) (says [] 0)))
     = (prologue @ [Read build_cmd 4096 (Inr [0x6F, 0x6B]), Write [111, 107], Flush,
          Read build_cmd 4096 (Inr [])])
       @ RecvExit build_cmd 0 # ([Print (build_exit_line 0), Print ([10] @ ascii ''=== STEP 2: pm2 restart gst ===''),
          Exec restart_cmd, ReadAll restart_cmd (Inr [0x70, 0x6D]), Print [112, 109]]
        @ RecvExit restart_cmd 5 # [Print (pm2_exit_line 5), Print ([10] @ ascii ''=== STEP 3: pm2 status ===''),
          Exec status_cmd, ReadAll status_cmd (Inr []), Print [], Close, Print (ascii ''Done.'')])"
    by (simp add: deploy_steps step_cases next_do_after host_def says_def read_loop_Suc print_def)
  have trR: "snd (deploy (Suc (Suc 0)) (host (says [[0x6F, 0x6B]] 0) (says [[0x70, 0x6D]] 5) (says [] 0)))
     = ((prologue @ [Read build_cmd 4096 (Inr [0x6F, 0x6B]), Write [111, 107], Flush,
          Read build_cmd 4096 (Inr [])])
        @ RecvExit build_cmd 0 # [Print (build_exit_line 0), Print ([10] @ ascii ''=== STEP 2: pm2 restart gst ===''),
          Exec restart_cmd, ReadAll restart_cmd (Inr [0x70, 0x6D]), Print [112, 109]])
       @ RecvExit restart_cmd 5 # [Print (pm2_exit_line 5), Print ([10] @ ascii ''=== STEP 3: pm2 status ===''),
          Exec status_cmd, ReadAll status_cmd (Inr []), Print [], Close, Print (ascii ''Done.'')]"
    by (simp add: deploy_steps step_cases next_do_after host_def says_def read_loop_Suc print_def)
  from exit_status_after_drain [OF trB] exit_status_after_drain [OF trR] trB trR
  show ?thesis by (intro conjI)
qed

section \<open>Decoding the build output chunk by chunk\<close>

text \<open>
  Decoding chunk by chunk and decoding the whole stream agree when the chunks are ASCII,
  and differ as soon as a chunk boundary falls inside a multi-byte character.
\<close>

lemma decode_chunks_ascii:
  "(\<And>c b. c \<in> set cs \<Longrightarrow> b \<in> set c \<Longrightarrow> b < 0x80) \<Longrightarrow>
     concat (map decode cs) = decode (concat cs)"
proof (induction cs)
  case Nil
  show ?case by simp
next
  case (Cons c cs)
  have c: "b < 0x80" if "b \<in> set c" for b using that Cons.prems [of c b] by simp
  have rest: "b < 0x80" if "c' \<in> set cs" "b \<in> set c'" for c' b
    using that Cons.prems [of c' b] by simp
  have "decode (c @ []) = map unat c @ decode []" using c by (rule decode_ascii_append)
  moreover have "decode (c @ concat cs) = map unat c @ decode (concat cs)"
    using c by (rule decode_ascii_append)
  moreover have "concat (map decode cs) = decode (concat cs)"
    using rest by (rule Cons.IH)
  ultimately show ?case by simp
qed

lemma decode_not_homomorphic: "\<not> (\<forall>cs. concat (map decode cs) = decode (concat cs))"
proof
  assume "\<forall>cs. concat (map decode cs) = decode (concat cs)"
  then have "concat (map decode [[0xC3], [0xA9]]) = decode (concat [[0xC3], [0xA9]])" by blast
  then show False by (simp add: is_continuation_def cp2_def REPLACEMENT_def)
qed

lemma split_written:
  "written (snd (deploy (Suc (Suc (Suc 0)))
      (host (says [replicate n 0x61 @ [0xC3], [0xA9]] 0) (says [] 0) (says [] 0))))
    = replicate n 97 @ [0xFFFD, 0xFFFD]"
  by (simp add: deploy_steps step_cases next_do_after host_def says_def read_loop_Suc print_def
      REPLACEMENT_def prologue_def)

lemma split_whole:
  "decode (concat [replicate n 0x61 @ [0xC3], [0xA9]]) = replicate n 97 @ [0xE9]"
  by (simp add: is_continuation_def cp2_def)

text \<open>
  Claim C3 says that the texts written for the chunks of a stream, concatenated, are the
  decoding of the whole stream, wherever the chunk boundaries fall. The loop of lines 18
  to 23 decodes each chunk on its own. A build that prints 4095 letters \<^verbatim>\<open>a\<close> and then
  the two bytes \<^verbatim>\<open>C3 A9\<close> of one character is read as a chunk of 4096 bytes that ends
  with \<^verbatim>\<open>C3\<close> and a chunk with \<^verbatim>\<open>A9\<close>: the script writes two U+FFFD where the
  decoding of the stream (the way lines 31 and 38 decode) has U+00E9.
\<close>

theorem split_character_garbled:
  "length (replicate 4095 0x61 @ [0xC3 :: byte]) = 4096
   \<and> written (snd (deploy (Suc (Suc (Suc 0)))
        (host (says [replicate 4095 0x61 @ [0xC3], [0xA9]] 0) (says [] 0) (says [] 0))))
      = replicate 4095 97 @ [0xFFFD, 0xFFFD]
   \<and> decode (concat [replicate 4095 0x61 @ [0xC3], [0xA9]]) = replicate 4095 97 @ [0xE9]
   \<and> written (snd (deploy (Suc (Suc (Suc 0)))
        (host (says [replicate 4095 0x61 @ [0xC3], [0xA9]] 0) (says [] 0) (says [] 0))))
      \<noteq> decode (concat [replicate 4095 0x61 @ [0xC3], [0xA9]])"
proof -
  have "replicate 4095 (97::nat) @ [0xFFFD, 0xFFFD] \<noteq> replicate 4095 97 @ [0xE9]" by simp
  moreover have "length (replicate 4095 0x61 @ [0xC3 :: byte]) = 4096" by simp
  ultimately show ?thesis
    using split_written [of 4095] split_whole [of 4095] by simp
qed

section \<open>Streaming of command output\<close>

text \<open>
  Claim C5 says that the output of every command is written chunk by chunk as it arrives.
  Lines 31 and 38 call \<^verbatim>\<open>read()\<close> once and print afterwards. When the restart command
  delivers a chunk and its next read times out, \<^verbatim>\<open>read()\<close> raises and the chunk is
  never written.
\<close>

theorem restart_output_not_streamed:
  "exec_result (host (says [] 0) (breaks [[0x6F, 0x6B]] CommandTimeout) (says [] 0)) restart_cmd
     = Inr (breaks [[0x6F, 0x6B]] CommandTimeout)
   \<and> stream (breaks [[0x6F, 0x6B]] CommandTimeout) 0 = Inr [0x6F, 0x6B]
   \<and> deploy (Suc (Suc 0)) (host (says [] 0) (breaks [[0x6F, 0x6B]] CommandTimeout) (says [] 0))
     = (Raises CommandTimeout,
        prologue @ [Read build_cmd 4096 (Inr []), RecvExit build_cmd 0, Print (build_exit_line 0),
          Print ([10] @ ascii ''=== STEP 2: pm2 restart gst ===''), Exec restart_cmd,
          ReadAll restart_cmd (Inl CommandTimeout), Raise CommandTimeout])
   \<and> Write (decode [0x6F, 0x6B])
       \<notin> set (snd (deploy (Suc (Suc 0)) (host (says [] 0) (breaks [[0x6F, 0x6B]] CommandTimeout) (says [] 0))))
   \<and> Print (decode [0x6F, 0x6B])
       \<notin> set (snd (deploy (Suc (Suc 0)) (host (says [] 0) (breaks [[0x6F, 0x6B]] CommandTimeout) (says [] 0))))
   \<and> written (snd (deploy (Suc (Suc 0)) (host (says [] 0) (breaks [[0x6F, 0x6B]] CommandTimeout) (says [] 0))))
       = []"
  by (simp add: deploy_steps step_cases next_do_after host_def says_def breaks_def read_loop_Suc
      print_def prologue_def build_exit_line_def ascii_def)


text \<open>
  Claim C5 as amended, for the build command, the one the script reads in a loop: in
  every run, as long as the reads of its stream deliver non-empty chunks, each read (of at
  most 4096 bytes) is followed by the write of the decoded chunk and a flush before the
  next read; so the console shows the decoded chunks delivered so far, whatever the
  following read does.
\<close>

theorem build_output_streamed:
  assumes "connect_result env = None" and "exec_result env build_cmd = Inr b"
    and "delivers (stream b) 0 n" and "n \<le> k"
  shows "\<exists>rest. snd (deploy k env) = prologue @ chunk_events build_cmd (stream b) 0 n @ rest
           \<and> console (snd (deploy k env)) =
               console prologue @ concat (map (\<lambda>j. decode (chunk_at (stream b) j)) [0..<n])
                 @ console rest"
proof -
  let ?L = "snd (read_loop k build_cmd (stream b) 0)"
  from assms(1,2) have "\<exists>rest. snd (build_step k env) = prologue @ ?L @ rest"
    by (simp add: build_step_cases split: result.splits)
  then obtain r1 where r1: "snd (build_step k env) = prologue @ ?L @ r1" ..
  have "\<exists>r2. snd (deploy k env) = snd (build_step k env) @ r2"
    unfolding deploy_steps by (subst next_do_after) (simp split: result.splits)
  then obtain r2 where r2: "snd (deploy k env) = snd (build_step k env) @ r2" ..
  let ?rest = "snd (read_loop (k - n) build_cmd (stream b) (0 + n)) @ r1 @ r2"
  from read_loop_delivers [OF assms(3,4), of build_cmd] r1 r2
  have tr: "snd (deploy k env) = prologue @ chunk_events build_cmd (stream b) 0 n @ ?rest"
    by simp
  then have "console (snd (deploy k env)) =
      console prologue @ concat (map (\<lambda>j. decode (chunk_at (stream b) j)) [0..<n])
        @ console ?rest"
    by (simp only: console_append console_chunk_events add_0)
  with tr show ?thesis by blast
qed

theorem build_output_streamed_witness:
  "connect_result (host (breaks [replicate 4096 0x61] CommandTimeout) (says [] 0) (says [] 0)) = None
   \<and> exec_result (host (breaks [replicate 4096 0x61] CommandTimeout) (says [] 0) (says [] 0)) build_cmd
        = Inr (breaks [replicate 4096 0x61] CommandTimeout)
   \<and> delivers (stream (breaks [replicate 4096 0x61] CommandTimeout)) 0 (Suc 0)
   \<and> Suc 0 \<le> Suc (Suc 0)
   \<and> (\<exists>rest.
         snd (deploy (Suc (Suc 0)) (host (breaks [replicate 4096 0x61] CommandTimeout) (says [] 0) (says [] 0)))
           = prologue
             @ chunk_events build_cmd (stream (breaks [replicate 4096 0x61] CommandTimeout)) 0 (Suc 0)
             @ rest
         \<and> console
             (snd (deploy (Suc (Suc 0)) (host (breaks [replicate 4096 0x61] CommandTimeout) (says [] 0) (says [] 0))))
           = console prologue
             @ concat (map (\<lambda>j. decode (chunk_at (stream (breaks [replicate 4096 0x61] CommandTimeout)) j))
                 [0..<Suc 0])
             @ console rest)"
proof -
  let ?H = "host (breaks [replicate 4096 0x61] CommandTimeout) (says [] 0) (says [] 0)"
  let ?b = "breaks [replicate 4096 0x61] CommandTimeout"
  have h: "connect_result ?H = None" "exec_result ?H build_cmd = Inr ?b"
    "delivers (stream ?b) 0 (Suc 0)" "Suc 0 \<le> Suc (Suc 0)"
    by (simp_all add: host_def breaks_def)
  from build_output_streamed [OF h] h show ?thesis by blast
qed



end
